theory Spec2Isabelle
  imports Main "HOL-Library.Word"
begin

section \<open>Server (server.hpp, server.cpp)\<close>

text \<open>
  A \<open>Server\<close> object holds the address and the atomics of the class. The fields keep
  the source's names without the leading underscore; the getters of the class are the
  record selectors. The three counters are \<open>uint32_t\<close>, so they are 32-bit words and
  \<open>++\<close> and \<open>--\<close> wrap. The steady clock is an integer number of ticks. Every member
  function is modelled as it runs when no other thread touches the object in between.
\<close>

type_synonym uint32 = "32 word"
type_synonym time_point = int

record Server =
  serverAddress :: string
  isAlive :: bool
  isHealthy :: bool
  lastHealthCheck :: time_point
  weight :: uint32
  currentConnections :: uint32
  failureCount :: uint32

text \<open>\<open>Server::Server(serverAddress, weight)\<close>; the clock value read is a parameter.\<close>

definition Server_new :: "time_point \<Rightarrow> string \<Rightarrow> uint32 \<Rightarrow> Server" where
  "Server_new now addr w =
     \<lparr>serverAddress = addr, isAlive = True, isHealthy = False, lastHealthCheck = now,
      weight = w, currentConnections = 0, failureCount = 0\<rparr>"

definition setAlive :: "bool \<Rightarrow> Server \<Rightarrow> Server" where
  "setAlive b s = s\<lparr>isAlive := b\<rparr>"

definition resetFailures :: "Server \<Rightarrow> Server" where
  "resetFailures s = s\<lparr>failureCount := 0\<rparr>"

text \<open>\<open>setHealthy\<close> stores the flag and then, when it is true, resets the failures.\<close>

definition setHealthy :: "bool \<Rightarrow> Server \<Rightarrow> Server" where
  "setHealthy b s =
     (let s1 = s\<lparr>isHealthy := b\<rparr> in if b then resetFailures s1 else s1)"

definition updateLastHealthCheck :: "time_point \<Rightarrow> Server \<Rightarrow> Server" where
  "updateLastHealthCheck now s = s\<lparr>lastHealthCheck := now\<rparr>"

definition setWeight :: "uint32 \<Rightarrow> Server \<Rightarrow> Server" where
  "setWeight w s = s\<lparr>weight := w\<rparr>"

definition incrementConnections :: "Server \<Rightarrow> Server" where
  "incrementConnections s = s\<lparr>currentConnections := currentConnections s + 1\<rparr>"

text \<open>\<open>decrementConnections\<close> loads the counter and decrements it only when the loaded
  value is positive.\<close>

definition decrementConnections :: "Server \<Rightarrow> Server" where
  "decrementConnections s =
     (let current = currentConnections s
      in if current > 0 then s\<lparr>currentConnections := currentConnections s - 1\<rparr> else s)"

definition incrementFailures :: "Server \<Rightarrow> Server" where
  "incrementFailures s = s\<lparr>failureCount := failureCount s + 1\<rparr>"

text \<open>Copy and move assignment: every field but the connection count is taken from
  \<open>other\<close>.\<close>

definition assign :: "Server \<Rightarrow> Server \<Rightarrow> Server" where
  "assign other s =
     s\<lparr>serverAddress := serverAddress other, isAlive := isAlive other,
       isHealthy := isHealthy other, weight := weight other,
       failureCount := failureCount other, lastHealthCheck := lastHealthCheck other\<rparr>"

text \<open>The public mutating operations of the class, as a datatype, and a run of them.\<close>

datatype server_op =
    SetAlive bool
  | SetHealthy bool
  | UpdateLastHealthCheck time_point
  | SetWeight uint32
  | IncrementConnections
  | DecrementConnections
  | IncrementFailures
  | ResetFailures
  | Assign Server

fun apply_server_op :: "server_op \<Rightarrow> Server \<Rightarrow> Server" where
  "apply_server_op (SetAlive b) s = setAlive b s"
| "apply_server_op (SetHealthy b) s = setHealthy b s"
| "apply_server_op (UpdateLastHealthCheck t) s = updateLastHealthCheck t s"
| "apply_server_op (SetWeight w) s = setWeight w s"
| "apply_server_op IncrementConnections s = incrementConnections s"
| "apply_server_op DecrementConnections s = decrementConnections s"
| "apply_server_op IncrementFailures s = incrementFailures s"
| "apply_server_op ResetFailures s = resetFailures s"
| "apply_server_op (Assign other) s = assign other s"

fun run_server_ops :: "server_op list \<Rightarrow> Server \<Rightarrow> Server" where
  "run_server_ops [] s = s"
| "run_server_ops (x # xs) s = run_server_ops xs (apply_server_op x s)"

text \<open>The invariant of the data model: a healthy server has no recorded failure.\<close>

definition healthy_inv :: "Server \<Rightarrow> bool" where
  "healthy_inv s = (isHealthy s \<longrightarrow> failureCount s = 0)"

text \<open>
  A run is \<open>disciplined\<close> when \<open>incrementFailures\<close> is only called on a server whose
  healthy flag is false at that moment (as the prober does, which calls
  \<open>setHealthy(false)\<close> first), and a server is only assigned from one that satisfies
  the invariant.
\<close>

fun disciplined :: "server_op list \<Rightarrow> Server \<Rightarrow> bool" where
  "disciplined [] s = True"
| "disciplined (IncrementFailures # xs) s =
     (\<not> isHealthy s \<and> disciplined xs (incrementFailures s))"
| "disciplined (Assign other # xs) s =
     (healthy_inv other \<and> disciplined xs (assign other s))"
| "disciplined (x # xs) s = disciplined xs (apply_server_op x s)"

section \<open>PingServer (ping_server.hpp, ping_server.cpp)\<close>

text \<open>
  Servers are held through \<open>std::shared_ptr\<close>: a non-null pointer is a handle into a
  store of server objects, and a possibly null pointer is an \<open>option\<close>.
\<close>

type_synonym ptr = nat
type_synonym heap = "ptr \<Rightarrow> Server"

record DNSCacheEntry =
  resolvedIP :: string
  expiryTime :: time_point

text \<open>
  The fields of the prober that the modelled member functions read or write. Durations
  and time points share the clock's unit. The probe is the pluggable
  \<open>_pingImplementation\<close>: for one call it yields a boolean.
\<close>

record PingServer =
  timeout :: int
  dnsCacheTTL :: int
  dnsCache :: "string \<rightharpoonup> DNSCacheEntry"
  pingImplementation :: "string \<Rightarrow> int \<Rightarrow> bool"

subsection \<open>parseServerAddress\<close>

text \<open>\<open>std::string::find(c)\<close>: the position of the first \<open>c\<close> at or after \<open>i\<close>, or
  \<open>npos\<close> (\<open>None\<close>).\<close>

function string_find :: "char \<Rightarrow> string \<Rightarrow> nat \<Rightarrow> nat option" where
  "string_find c s i =
     (if i < length s then (if s ! i = c then Some i else string_find c s (i + 1))
      else None)"
  by pat_completeness auto
termination
  by (relation "measure (\<lambda>(c, s, i). length s - i)") auto

declare string_find.simps [simp del]

text \<open>
  \<open>std::stoi\<close> in base 10, after the C++ standard (it is \<open>strtol\<close> with a range check):
  leading white space is skipped, one sign is accepted, the longest run of decimal
  digits is converted and whatever follows is ignored. No digit, or a value outside
  \<open>int\<close>, throws (\<open>None\<close>).
\<close>

definition isspace :: "char \<Rightarrow> bool" where
  "isspace c = (of_char c = (32::nat) \<or> (9 \<le> (of_char c :: nat) \<and> (of_char c :: nat) \<le> 13))"

definition isdigit :: "char \<Rightarrow> bool" where
  "isdigit c = (48 \<le> (of_char c :: nat) \<and> (of_char c :: nat) \<le> 57)"

fun decimal :: "int \<Rightarrow> string \<Rightarrow> int" where
  "decimal acc [] = acc"
| "decimal acc (c # cs) = decimal (10 * acc + (int (of_char c) - 48)) cs"

definition stoi :: "string \<Rightarrow> int option" where
  "stoi s =
     (let s1 = dropWhile isspace s;
          neg = (s1 \<noteq> [] \<and> hd s1 = CHR ''-'');
          s2 = (if s1 \<noteq> [] \<and> (hd s1 = CHR ''-'' \<or> hd s1 = CHR ''+'') then tl s1 else s1);
          ds = takeWhile isdigit s2;
          v = (if neg then - decimal 0 ds else decimal 0 ds)
      in if ds = [] then None
         else if v < - (2 ^ 31) \<or> 2 ^ 31 - 1 < v then None
         else Some v)"

text \<open>
  \<open>parseServerAddress(serverAddress, host, port)\<close> (the address is \<open>addr\<close> here) writes through the references
  \<open>host\<close> and \<open>port\<close>; the result is the returned flag with the two values afterwards.
  \<open>port0\<close> is what \<open>port\<close> held before the call (it is left alone when \<open>stoi\<close> throws).
\<close>

definition parseServerAddress :: "string \<Rightarrow> int \<Rightarrow> bool \<times> string \<times> int" where
  "parseServerAddress addr port0 =
     (case string_find CHR '':'' addr 0 of
        None \<Rightarrow> (True, addr, 80)
      | Some colonPos \<Rightarrow>
          (let host = take colonPos addr
           in case stoi (drop (colonPos + 1) addr) of
                Some port \<Rightarrow> (True, host, port)
              | None \<Rightarrow> (False, host, port0)))"

text \<open>The split the specification describes: at the last colon.\<close>

definition before_last_colon :: "string \<Rightarrow> string" where
  "before_last_colon s = rev (tl (dropWhile (\<lambda>c. c \<noteq> CHR '':'') (rev s)))"

definition after_last_colon :: "string \<Rightarrow> string" where
  "after_last_colon s = rev (takeWhile (\<lambda>c. c \<noteq> CHR '':'') (rev s))"

subsection \<open>resolveHostname\<close>

text \<open>
  The two library calls are parameters: \<open>inet_pton4 s\<close> says whether
  \<open>inet_pton(AF_INET, s, _)\<close> returns 1, and \<open>getaddrinfo s\<close> is the address that
  \<open>getaddrinfo\<close> and \<open>inet_ntop\<close> yield, or \<open>None\<close> when \<open>getaddrinfo\<close> fails. The
  steady clock is read twice, at the cache check (\<open>now1\<close>) and at the store (\<open>now2\<close>).
  The list \<open>calls\<close> records the host names handed to \<open>getaddrinfo\<close> so far. The result
  is the returned string (empty on failure), the prober and the record of calls. The
  inner \<open>case\<close> is the block that returns the cached address when there is an entry
  that has not expired; \<open>None\<close> there means the function goes on to resolve.
\<close>

definition resolveHostname ::
  "(string \<Rightarrow> bool) \<Rightarrow> (string \<Rightarrow> string option) \<Rightarrow> time_point \<Rightarrow> time_point \<Rightarrow>
   PingServer \<Rightarrow> string list \<Rightarrow> string \<Rightarrow> string \<times> PingServer \<times> string list" where
  "resolveHostname inet_pton4 getaddrinfo now1 now2 ps calls hostname =
     (if inet_pton4 hostname then (hostname, ps, calls)
      else
        (case (case dnsCache ps hostname of
                 None \<Rightarrow> None
               | Some it \<Rightarrow> if expiryTime it > now1 then Some (resolvedIP it) else None) of
           Some cached \<Rightarrow> (cached, ps, calls)
         | None \<Rightarrow>
             (case getaddrinfo hostname of
                None \<Rightarrow> ('''', ps, calls @ [hostname])
              | Some resolved \<Rightarrow>
                  (resolved,
                   ps\<lparr>dnsCache := (dnsCache ps)(hostname \<mapsto>
                        \<lparr>resolvedIP = resolved, expiryTime = now2 + dnsCacheTTL ps\<rparr>)\<rparr>,
                   calls @ [hostname]))))"

subsection \<open>pingServer\<close>

text \<open>
  \<open>pingServer(server)\<close>: a null pointer yields false. Otherwise the probe runs on the
  server's address, and the server is updated in the store in the order of the source.
  \<open>now\<close> is the clock value that \<open>updateLastHealthCheck\<close> reads.
\<close>

definition pingServer :: "PingServer \<Rightarrow> time_point \<Rightarrow> heap \<Rightarrow> ptr option \<Rightarrow> bool \<times> heap" where
  "pingServer ps now h server =
     (case server of
        None \<Rightarrow> (False, h)
      | Some p \<Rightarrow>
          (let result = pingImplementation ps (serverAddress (h p)) (timeout ps);
               s1 = setHealthy result (h p);
               s2 = updateLastHealthCheck now s1;
               s3 = (if \<not> result then
                       (let s = incrementFailures s2
                        in if failureCount s \<ge> 3 then setAlive False s else s)
                     else setAlive True (resetFailures s2))
           in (result, h(p := s3))))"

section \<open>LoadBalancer (round_robin_load_balancer.hpp, round_robin_load_balancer.cpp)\<close>

datatype LoadBalancingStrategy =
  ROUND_ROBIN | WEIGHTED_ROUND_ROBIN | LEAST_CONNECTIONS | IP_HASH

datatype error = invalid_argument

text \<open>
  The pool \<open>_serversList\<close> is a vector of shared pointers. Its entries are handles into
  the store (the member functions dereference every entry without a null check, so a
  null entry is undefined behaviour and outside the model). Vector indices and the
  cursor \<open>_currentServerIndex\<close> are \<open>size_t\<close>; the cursor is only ever stored as 0 or
  as \<open>(k + 1) % size\<close>, so \<open>startIndex + i\<close> stays far below \<open>2^64\<close> and natural
  numbers compute the same values.
\<close>

record LoadBalancer =
  serversList :: "ptr list"
  strategy :: LoadBalancingStrategy
  healthCheckInterval :: uint32
  maxHealthCheckFailures :: uint32

record RoundRobinLoadBalancer = LoadBalancer +
  currentServerIndex :: nat

text \<open>The weighted balancer has a cursor of the same name over its own list.\<close>

record WeightedRoundRobinLoadBalancer = LoadBalancer +
  weightedCurrentServerIndex :: nat
  weightedServersList :: "ptr list"

subsection \<open>addServer, removeServer\<close>

text \<open>\<open>std::find_if\<close> over the pool for an entry with the address of \<open>server\<close>.\<close>

definition addServer ::
  "heap \<Rightarrow> ptr option \<Rightarrow> 'a LoadBalancer_scheme \<Rightarrow> bool \<times> 'a LoadBalancer_scheme" where
  "addServer h server lb =
     (case server of
        None \<Rightarrow> (False, lb)
      | Some p \<Rightarrow>
          (case find (\<lambda>s. serverAddress (h s) = serverAddress (h p)) (serversList lb) of
             Some it \<Rightarrow> (False, lb)
           | None \<Rightarrow> (True, lb\<lparr>serversList := serversList lb @ [p]\<rparr>)))"

text \<open>The erase-remove idiom keeps, in order, the entries the predicate rejects.\<close>

definition removeServer ::
  "heap \<Rightarrow> string \<Rightarrow> 'a LoadBalancer_scheme \<Rightarrow> bool \<times> 'a LoadBalancer_scheme" where
  "removeServer h addr lb =
     (let originalSize = length (serversList lb);
          lb' = lb\<lparr>serversList := filter (\<lambda>s. \<not> serverAddress (h s) = addr) (serversList lb)\<rparr>
      in (length (serversList lb') < originalSize, lb'))"

subsection \<open>The selection scan\<close>

text \<open>
  Both \<open>getNextServer\<close> bodies contain the same two loops, one over \<open>_serversList\<close> and
  one over \<open>_weightedServersList\<close>. The first loop either returns at a healthy entry
  (\<open>Healthy index\<close>) or runs to the end with the fallback it has kept (\<open>NoHealthy\<close>).
\<close>

datatype scan_result = Healthy nat | NoHealthy "ptr option"

function scan_loop :: "heap \<Rightarrow> ptr list \<Rightarrow> nat \<Rightarrow> nat \<Rightarrow> ptr option \<Rightarrow> scan_result" where
  "scan_loop h xs startIndex i fallbackServer =
     (if i < length xs then
        (if isAlive (h (xs ! ((startIndex + i) mod length xs))) then
           (if isHealthy (h (xs ! ((startIndex + i) mod length xs))) then
              Healthy ((startIndex + i) mod length xs)
            else if fallbackServer = None then
              scan_loop h xs startIndex (i + 1) (Some (xs ! ((startIndex + i) mod length xs)))
            else scan_loop h xs startIndex (i + 1) fallbackServer)
         else scan_loop h xs startIndex (i + 1) fallbackServer)
      else NoHealthy fallbackServer)"
  by pat_completeness auto
termination
  by (relation "measure (\<lambda>(h, xs, startIndex, i, fallbackServer). length xs - i)") auto

declare scan_loop.simps [simp del]

text \<open>The second loop looks the fallback pointer up from index 0.\<close>

function index_loop :: "ptr list \<Rightarrow> ptr \<Rightarrow> nat \<Rightarrow> nat option" where
  "index_loop xs fallbackServer i =
     (if i < length xs then
        (if xs ! i = fallbackServer then Some i else index_loop xs fallbackServer (i + 1))
      else None)"
  by pat_completeness auto
termination
  by (relation "measure (\<lambda>(xs, fallbackServer, i). length xs - i)") auto

declare index_loop.simps [simp del]

text \<open>The returned pointer (\<open>None\<close> is \<open>nullptr\<close>) and the cursor afterwards.\<close>

definition select_next :: "heap \<Rightarrow> ptr list \<Rightarrow> nat \<Rightarrow> ptr option \<times> nat" where
  "select_next h xs startIndex =
     (case scan_loop h xs startIndex 0 None of
        Healthy index \<Rightarrow> (Some (xs ! index), (index + 1) mod length xs)
      | NoHealthy None \<Rightarrow> (None, startIndex)
      | NoHealthy (Some fallbackServer) \<Rightarrow>
          (Some fallbackServer,
           case index_loop xs fallbackServer 0 of
             Some i \<Rightarrow> (i + 1) mod length xs
           | None \<Rightarrow> startIndex))"

subsection \<open>RoundRobinLoadBalancer\<close>

definition RoundRobinLoadBalancer_new ::
  "ptr list \<Rightarrow> uint32 \<Rightarrow> uint32 \<Rightarrow> error + RoundRobinLoadBalancer" where
  "RoundRobinLoadBalancer_new servers interval maxFailures =
     (if servers = [] then Inl invalid_argument
      else Inr \<lparr>serversList = servers, strategy = ROUND_ROBIN,
                healthCheckInterval = interval, maxHealthCheckFailures = maxFailures,
                currentServerIndex = 0\<rparr>)"

definition RoundRobin_getNextServer ::
  "heap \<Rightarrow> RoundRobinLoadBalancer \<Rightarrow> ptr option \<times> RoundRobinLoadBalancer" where
  "RoundRobin_getNextServer h lb =
     (if serversList lb = [] then (None, lb)
      else
        (case select_next h (serversList lb) (currentServerIndex lb) of
           (server, index) \<Rightarrow> (server, lb\<lparr>currentServerIndex := index\<rparr>)))"

text \<open>\<open>n\<close> consecutive calls: the returned pointers in order, and the balancer afterwards.\<close>

fun RoundRobin_calls ::
  "nat \<Rightarrow> heap \<Rightarrow> RoundRobinLoadBalancer \<Rightarrow> ptr option list \<times> RoundRobinLoadBalancer" where
  "RoundRobin_calls 0 h lb = ([], lb)"
| "RoundRobin_calls (Suc n) h lb =
     (case RoundRobin_getNextServer h lb of
        (server, lb1) \<Rightarrow>
          (case RoundRobin_calls n h lb1 of (servers, lb2) \<Rightarrow> (server # servers, lb2)))"

text \<open>The order in which a scan from cursor \<open>c\<close> visits the indices of a list of length
  \<open>n\<close>, and the first index at which a pointer occurs in a list.\<close>

definition scan_order :: "nat \<Rightarrow> nat \<Rightarrow> nat list" where
  "scan_order c n = map (\<lambda>i. (c + i) mod n) [0..<n]"

definition first_index :: "ptr list \<Rightarrow> ptr \<Rightarrow> nat" where
  "first_index xs p = length (takeWhile (\<lambda>q. q \<noteq> p) xs)"

subsection \<open>WeightedRoundRobinLoadBalancer\<close>

text \<open>The inner loop of \<open>updateWeightedList\<close>, with its \<open>uint32_t\<close> counter.\<close>

function push_copies :: "uint32 \<Rightarrow> uint32 \<Rightarrow> ptr \<Rightarrow> ptr list \<Rightarrow> ptr list" where
  "push_copies i w server acc =
     (if i < w then push_copies (i + 1) w server (acc @ [server]) else acc)"
  by pat_completeness auto
termination
proof (relation "measure (\<lambda>(i, w, server, acc). unat w - unat i)")
  show "wf (measure (\<lambda>(i, w, server, acc). unat w - unat i))"
    by simp
next
  fix i w :: uint32 and server :: ptr and acc :: "ptr list"
  assume less: "i < w"
  then have "unat i < unat w"
    by (simp add: word_less_nat_alt)
  moreover have "unat w < 2 ^ 32"
    using unsigned_less [of w, where ?'a = nat] by simp
  ultimately have "unat i + unat (1::uint32) < 2 ^ LENGTH(32)"
    by simp
  then have "unat (i + 1) = unat i + unat (1::uint32)"
    by (simp only: unat_add_lem)
  with \<open>unat i < unat w\<close>
  show "((i + 1, w, server, acc @ [server]), (i, w, server, acc))
      \<in> measure (\<lambda>(i, w, server, acc). unat w - unat i)"
    by simp
qed

declare push_copies.simps [simp del]

fun weighted_loop :: "heap \<Rightarrow> ptr list \<Rightarrow> ptr list \<Rightarrow> ptr list" where
  "weighted_loop h [] acc = acc"
| "weighted_loop h (server # rest) acc =
     weighted_loop h rest
       (if isAlive (h server) then push_copies 0 (weight (h server)) server acc else acc)"

definition updateWeightedList ::
  "heap \<Rightarrow> WeightedRoundRobinLoadBalancer \<Rightarrow> WeightedRoundRobinLoadBalancer" where
  "updateWeightedList h lb = lb\<lparr>weightedServersList := weighted_loop h (serversList lb) []\<rparr>"

definition WeightedRoundRobinLoadBalancer_new ::
  "heap \<Rightarrow> ptr list \<Rightarrow> uint32 \<Rightarrow> uint32 \<Rightarrow> error + WeightedRoundRobinLoadBalancer" where
  "WeightedRoundRobinLoadBalancer_new h servers interval maxFailures =
     (if servers = [] then Inl invalid_argument
      else Inr (updateWeightedList h
                  \<lparr>serversList = servers, strategy = WEIGHTED_ROUND_ROBIN,
                   healthCheckInterval = interval, maxHealthCheckFailures = maxFailures,
                   weightedCurrentServerIndex = 0, weightedServersList = []\<rparr>))"

definition WeightedRoundRobin_getNextServer ::
  "heap \<Rightarrow> WeightedRoundRobinLoadBalancer \<Rightarrow> ptr option \<times> WeightedRoundRobinLoadBalancer" where
  "WeightedRoundRobin_getNextServer h lb =
     (let lb1 = (if weightedServersList lb = [] then updateWeightedList h lb else lb)
      in if weightedServersList lb1 = [] then (None, lb1)
         else
           (case select_next h (weightedServersList lb1) (weightedCurrentServerIndex lb1) of
              (server, index) \<Rightarrow> (server, lb1\<lparr>weightedCurrentServerIndex := index\<rparr>)))"

text \<open>The expansion the data model describes: every alive pool entry, in pool order,
  \<open>weight\<close> times in a row.\<close>

definition expansion :: "heap \<Rightarrow> ptr list \<Rightarrow> ptr list" where
  "expansion h pool =
     concat (map (\<lambda>p. if isAlive (h p) then replicate (unat (weight (h p))) p else []) pool)"


subsection \<open>Runs and concrete instances\<close>

text \<open>A server as the constructor leaves it, for the concrete instances below.\<close>

definition example_server :: Server where
  "example_server = Server_new 0 ''10.0.0.1:8080'' 1"

text \<open>\<open>n\<close> probes of the same server in a row; the store afterwards.\<close>

fun pingServer_repeat :: "nat \<Rightarrow> PingServer \<Rightarrow> time_point \<Rightarrow> heap \<Rightarrow> ptr \<Rightarrow> heap" where
  "pingServer_repeat 0 ps now h p = h"
| "pingServer_repeat (Suc n) ps now h p =
     pingServer_repeat n ps now (snd (pingServer ps now h (Some p))) p"

definition failing_prober :: PingServer where
  "failing_prober =
     \<lparr>timeout = 1000, dnsCacheTTL = 300, dnsCache = Map.empty,
      pingImplementation = (\<lambda>a t. False)\<rparr>"

definition example_heap :: heap where
  "example_heap = (\<lambda>p. example_server)"

definition example_prober :: PingServer where
  "example_prober =
     \<lparr>timeout = 1000, dnsCacheTTL = 300,
      dnsCache = [''backend.local'' \<mapsto> \<lparr>resolvedIP = ''10.0.0.7'', expiryTime = 500\<rparr>],
      pingImplementation = (\<lambda>a t. True)\<rparr>"

text \<open>A stand-in for \<open>inet_pton\<close> that accepts one literal, and a resolver that knows one
  name.\<close>

definition example_inet_pton4 :: "string \<Rightarrow> bool" where
  "example_inet_pton4 s = (s = ''10.0.0.1'')"

definition example_getaddrinfo :: "string \<Rightarrow> string option" where
  "example_getaddrinfo s = (if s = ''backend.local'' then Some ''10.0.0.9'' else None)"

definition server_with :: "string \<Rightarrow> bool \<Rightarrow> bool \<Rightarrow> uint32 \<Rightarrow> Server" where
  "server_with addr alive healthy w =
     (Server_new 0 addr w)\<lparr>isAlive := alive, isHealthy := healthy\<rparr>"

definition example_store :: heap where
  "example_store =
     (\<lambda>p. example_server)
       (0 := server_with ''a:80'' True True 3,
        1 := server_with ''b:80'' True False 1,
        2 := server_with ''c:80'' False False 2,
        3 := server_with ''d:80'' True True 1)"

definition example_balancer :: "ptr list \<Rightarrow> nat \<Rightarrow> RoundRobinLoadBalancer" where
  "example_balancer pool cursor =
     \<lparr>serversList = pool, strategy = ROUND_ROBIN, healthCheckInterval = 5000,
      maxHealthCheckFailures = 3, currentServerIndex = cursor\<rparr>"

definition example_weighted :: WeightedRoundRobinLoadBalancer where
  "example_weighted =
     \<lparr>serversList = [0, 2, 1], strategy = WEIGHTED_ROUND_ROBIN, healthCheckInterval = 5000,
      maxHealthCheckFailures = 3, weightedCurrentServerIndex = 0, weightedServersList = []\<rparr>"

lemmas example_defs =
  example_store_def server_with_def Server_new_def example_balancer_def example_server_def

section \<open>Properties of Server\<close>

text \<open>
  Claim C10. \<open>decrementConnections\<close> does not underflow the connection counter: called
  with the counter at 0 it leaves the server as it is, so the counter stays 0 and does
  not wrap to \<open>2^32 - 1\<close>; called with a positive counter it lowers the counter by
  exactly one and changes nothing else. In both cases the counter does not grow.
\<close>

theorem decrementConnections_no_underflow:
  "(currentConnections s = 0 \<longrightarrow> decrementConnections s = s) \<and>
   (0 < currentConnections s \<longrightarrow>
      unat (currentConnections (decrementConnections s)) = unat (currentConnections s) - 1 \<and>
      decrementConnections s = s\<lparr>currentConnections := currentConnections s - 1\<rparr>) \<and>
   unat (currentConnections (decrementConnections s)) \<le> unat (currentConnections s)"
proof -
  have pos: "unat (currentConnections s - 1) = unat (currentConnections s) - 1"
    if "0 < currentConnections s"
    using that by (simp add: unat_minus_one word_greater_zero_iff)
  show ?thesis
    by (auto simp: decrementConnections_def Let_def pos word_greater_zero_iff)
qed

theorem decrementConnections_no_underflow_witness:
  "currentConnections example_server = 0 \<and>
   decrementConnections example_server = example_server \<and>
   0 < currentConnections (incrementConnections example_server) \<and>
   unat (currentConnections (decrementConnections (incrementConnections example_server))) =
     unat (currentConnections (incrementConnections example_server)) - 1"
proof -
  have zero: "currentConnections example_server = 0"
    by (simp add: example_server_def Server_new_def)
  have pos: "0 < currentConnections (incrementConnections example_server)"
    by (simp add: example_server_def Server_new_def incrementConnections_def)
  from zero decrementConnections_no_underflow [of example_server]
  have "decrementConnections example_server = example_server"
    by blast
  moreover
  from pos decrementConnections_no_underflow [of "incrementConnections example_server"]
  have "unat (currentConnections (decrementConnections (incrementConnections example_server))) =
     unat (currentConnections (incrementConnections example_server)) - 1"
    by blast
  ultimately show ?thesis
    using zero pos by blast
qed

lemma apply_server_op_inv:
  "healthy_inv s \<Longrightarrow> disciplined (x # xs) s \<Longrightarrow> healthy_inv (apply_server_op x s)"
  by (cases x)
     (auto simp: healthy_inv_def setAlive_def setHealthy_def resetFailures_def
        updateLastHealthCheck_def setWeight_def incrementConnections_def
        decrementConnections_def incrementFailures_def assign_def Let_def)

lemma disciplined_tail:
  "disciplined (x # xs) s \<Longrightarrow> disciplined xs (apply_server_op x s)"
  by (cases x) auto

lemma run_server_ops_inv:
  "healthy_inv s \<Longrightarrow> disciplined ops s \<Longrightarrow> healthy_inv (run_server_ops ops s)"
proof (induction ops arbitrary: s)
  case Nil
  then show ?case by simp
next
  case (Cons x xs)
  from Cons.prems have "healthy_inv (apply_server_op x s)"
    by (rule apply_server_op_inv)
  moreover from Cons.prems(2) have "disciplined xs (apply_server_op x s)"
    by (rule disciplined_tail)
  ultimately show ?case
    using Cons.IH by simp
qed

text \<open>
  Claim C7, as stated: no sequence of the public operations leaves a server with
  \<open>healthy = true\<close> and a positive failure count. It fails: \<open>incrementFailures\<close> is
  public and does not look at the healthy flag, so \<open>setHealthy(true)\<close> followed by
  \<open>incrementFailures()\<close> on a new server yields \<open>healthy = true\<close> with one failure.
\<close>

theorem healthy_inv_counterexample:
  "isHealthy (run_server_ops [SetHealthy True, IncrementFailures] example_server) \<and>
   failureCount (run_server_ops [SetHealthy True, IncrementFailures] example_server) = 1 \<and>
   \<not> healthy_inv (run_server_ops [SetHealthy True, IncrementFailures] example_server)"
  by (simp add: example_server_def Server_new_def healthy_inv_def setHealthy_def
      incrementFailures_def resetFailures_def)

text \<open>
  Claim C7, amended. Setting healthy to true resets the failure count to 0, a new
  server satisfies the invariant \<open>healthy = true \<Longrightarrow> failureCount = 0\<close>, and every
  sequence of the public operations keeps the invariant provided \<open>incrementFailures\<close>
  is only called while the healthy flag is false and a server is only assigned from
  one that satisfies the invariant.
\<close>

theorem healthy_inv_disciplined:
  "isHealthy (setHealthy True s) \<and> failureCount (setHealthy True s) = 0 \<and>
   healthy_inv (Server_new now addr w) \<and>
   (healthy_inv s \<and> disciplined ops s \<longrightarrow> healthy_inv (run_server_ops ops s))"
  by (simp add: run_server_ops_inv)
     (simp add: setHealthy_def resetFailures_def healthy_inv_def Server_new_def)

theorem healthy_inv_disciplined_witness:
  "healthy_inv example_server \<and>
   disciplined [SetHealthy False, IncrementFailures, IncrementFailures, SetHealthy True,
                IncrementConnections] example_server \<and>
   healthy_inv (run_server_ops [SetHealthy False, IncrementFailures, IncrementFailures,
                SetHealthy True, IncrementConnections] example_server)"
proof -
  have inv: "healthy_inv example_server"
    by (simp add: example_server_def Server_new_def healthy_inv_def)
  have disc: "disciplined [SetHealthy False, IncrementFailures, IncrementFailures,
      SetHealthy True, IncrementConnections] example_server"
    by (simp add: example_server_def Server_new_def setHealthy_def incrementFailures_def)
  from inv disc healthy_inv_disciplined [of example_server 0 "[]" 0
      "[SetHealthy False, IncrementFailures, IncrementFailures, SetHealthy True,
        IncrementConnections]"]
  show ?thesis
    by blast
qed

section \<open>Properties of PingServer\<close>

lemma pingServer_Some:
  "pingServer ps now h (Some p) =
     (if pingImplementation ps (serverAddress (h p)) (timeout ps)
      then (True, h(p := (h p)\<lparr>isHealthy := True, lastHealthCheck := now,
                               failureCount := 0, isAlive := True\<rparr>))
      else (False, h(p := (h p)\<lparr>isHealthy := False, lastHealthCheck := now,
                               failureCount := failureCount (h p) + 1,
                               isAlive := (if failureCount (h p) + 1 \<ge> 3 then False
                                           else isAlive (h p))\<rparr>)))"
  by (simp add: pingServer_def Let_def setHealthy_def resetFailures_def
      updateLastHealthCheck_def incrementFailures_def setAlive_def)

lemma three_failures:
  assumes never: "\<forall>a t. \<not> pingImplementation ps a t"
    and zero: "failureCount (h p) = 0" and alive: "isAlive (h p)"
  shows "isAlive (pingServer_repeat 2 ps now h p p)"
    and "\<not> isAlive (pingServer_repeat 3 ps now h p p)"
proof -
  define h1 where "h1 = snd (pingServer ps now h (Some p))"
  define h2 where "h2 = snd (pingServer ps now h1 (Some p))"
  define h3 where "h3 = snd (pingServer ps now h2 (Some p))"
  have f1: "failureCount (h1 p) = 1" and a1: "isAlive (h1 p)"
    using never zero alive by (simp_all add: h1_def pingServer_Some word_le_nat_alt)
  have f2: "failureCount (h2 p) = 2" and a2: "isAlive (h2 p)"
    using never f1 a1 by (simp_all add: h2_def pingServer_Some word_le_nat_alt)
  have a3: "\<not> isAlive (h3 p)"
    using never f2 a2 by (simp add: h3_def pingServer_Some)
  have r2: "pingServer_repeat 2 ps now h p = h2"
    by (simp add: numeral_2_eq_2 h1_def h2_def)
  have r3: "pingServer_repeat 3 ps now h p = h3"
    by (simp add: numeral_3_eq_3 h1_def h2_def h3_def)
  show "isAlive (pingServer_repeat 2 ps now h p p)"
    using a2 r2 by simp
  show "\<not> isAlive (pingServer_repeat 3 ps now h p p)"
    using a3 r3 by simp
qed

text \<open>
  Claim C2. For a non-null server, \<open>pingServer\<close> returns the probe's outcome. After a
  successful probe the server is healthy, has failure count 0 and is alive. After a
  failed probe the server is not healthy and its failure count is the old count plus one
  (in \<open>uint32_t\<close> arithmetic; as a number when the old count is below \<open>2^32 - 1\<close>);
  alive is false when the new count is at least 3 and keeps its old value otherwise. From
  a server with no failure that is alive, two failed probes in a row leave it alive and
  the third makes it not alive.
\<close>

theorem pingServer_updates:
  "(pingImplementation ps (serverAddress (h p)) (timeout ps) \<longrightarrow>
      fst (pingServer ps now h (Some p)) = True \<and>
      isHealthy (snd (pingServer ps now h (Some p)) p) \<and>
      failureCount (snd (pingServer ps now h (Some p)) p) = 0 \<and>
      isAlive (snd (pingServer ps now h (Some p)) p)) \<and>
   (\<not> pingImplementation ps (serverAddress (h p)) (timeout ps) \<longrightarrow>
      fst (pingServer ps now h (Some p)) = False \<and>
      \<not> isHealthy (snd (pingServer ps now h (Some p)) p) \<and>
      failureCount (snd (pingServer ps now h (Some p)) p) = failureCount (h p) + 1 \<and>
      (unat (failureCount (h p)) < 2 ^ 32 - 1 \<longrightarrow>
         unat (failureCount (snd (pingServer ps now h (Some p)) p)) =
           unat (failureCount (h p)) + 1) \<and>
      (3 \<le> failureCount (snd (pingServer ps now h (Some p)) p) \<longrightarrow>
         \<not> isAlive (snd (pingServer ps now h (Some p)) p)) \<and>
      (\<not> 3 \<le> failureCount (snd (pingServer ps now h (Some p)) p) \<longrightarrow>
         isAlive (snd (pingServer ps now h (Some p)) p) = isAlive (h p))) \<and>
   ((\<forall>a t. \<not> pingImplementation ps a t) \<and> failureCount (h p) = 0 \<and> isAlive (h p) \<longrightarrow>
      isAlive (pingServer_repeat 2 ps now h p p) \<and>
      \<not> isAlive (pingServer_repeat 3 ps now h p p))"
proof (intro conjI)
  show "pingImplementation ps (serverAddress (h p)) (timeout ps) \<longrightarrow>
      fst (pingServer ps now h (Some p)) = True \<and>
      isHealthy (snd (pingServer ps now h (Some p)) p) \<and>
      failureCount (snd (pingServer ps now h (Some p)) p) = 0 \<and>
      isAlive (snd (pingServer ps now h (Some p)) p)"
    by (simp add: pingServer_Some)
  have inc: "unat (failureCount (h p) + 1) = unat (failureCount (h p)) + 1"
    if "unat (failureCount (h p)) < 2 ^ 32 - 1"
  proof -
    from that have "unat (failureCount (h p)) + unat (1::uint32) < 2 ^ LENGTH(32)"
      by simp
    then show ?thesis
      by (simp only: unat_add_lem) simp
  qed
  show "\<not> pingImplementation ps (serverAddress (h p)) (timeout ps) \<longrightarrow>
      fst (pingServer ps now h (Some p)) = False \<and>
      \<not> isHealthy (snd (pingServer ps now h (Some p)) p) \<and>
      failureCount (snd (pingServer ps now h (Some p)) p) = failureCount (h p) + 1 \<and>
      (unat (failureCount (h p)) < 2 ^ 32 - 1 \<longrightarrow>
         unat (failureCount (snd (pingServer ps now h (Some p)) p)) =
           unat (failureCount (h p)) + 1) \<and>
      (3 \<le> failureCount (snd (pingServer ps now h (Some p)) p) \<longrightarrow>
         \<not> isAlive (snd (pingServer ps now h (Some p)) p)) \<and>
      (\<not> 3 \<le> failureCount (snd (pingServer ps now h (Some p)) p) \<longrightarrow>
         isAlive (snd (pingServer ps now h (Some p)) p) = isAlive (h p))"
    using inc by (simp add: pingServer_Some)
  show "(\<forall>a t. \<not> pingImplementation ps a t) \<and> failureCount (h p) = 0 \<and> isAlive (h p) \<longrightarrow>
      isAlive (pingServer_repeat 2 ps now h p p) \<and>
      \<not> isAlive (pingServer_repeat 3 ps now h p p)"
    using three_failures by blast
qed

text \<open>Three failed probes of a new server, then a successful one.\<close>

theorem pingServer_updates_witness:
  "\<not> pingImplementation failing_prober (serverAddress (example_heap 0)) (timeout failing_prober) \<and>
   (\<forall>a t. \<not> pingImplementation failing_prober a t) \<and>
   failureCount (example_heap 0) = 0 \<and> isAlive (example_heap 0) \<and>
   fst (pingServer failing_prober 7 example_heap (Some 0)) = False \<and>
   failureCount (snd (pingServer failing_prober 7 example_heap (Some 0)) 0) =
     failureCount (example_heap 0) + 1 \<and>
   isAlive (pingServer_repeat 2 failing_prober 7 example_heap 0 0) \<and>
   \<not> isAlive (pingServer_repeat 3 failing_prober 7 example_heap 0 0) \<and>
   pingImplementation (failing_prober\<lparr>pingImplementation := (\<lambda>a t. True)\<rparr>)
     (serverAddress (pingServer_repeat 3 failing_prober 7 example_heap 0 0))
     (timeout (failing_prober\<lparr>pingImplementation := (\<lambda>a t. True)\<rparr>)) \<and>
   isAlive (snd (pingServer (failing_prober\<lparr>pingImplementation := (\<lambda>a t. True)\<rparr>) 8
     (pingServer_repeat 3 failing_prober 7 example_heap 0) (Some 0)) 0)"
proof -
  have never: "\<forall>a t. \<not> pingImplementation failing_prober a t"
    by (simp add: failing_prober_def)
  then have fails: "\<not> pingImplementation failing_prober (serverAddress (example_heap 0))
      (timeout failing_prober)"
    by simp
  have start: "failureCount (example_heap 0) = 0 \<and> isAlive (example_heap 0)"
    by (simp add: example_heap_def example_server_def Server_new_def)
  have succeeds: "pingImplementation (failing_prober\<lparr>pingImplementation := (\<lambda>a t. True)\<rparr>)
     (serverAddress (pingServer_repeat 3 failing_prober 7 example_heap 0 0))
     (timeout (failing_prober\<lparr>pingImplementation := (\<lambda>a t. True)\<rparr>))"
    by simp
  from never fails start pingServer_updates [of failing_prober example_heap 0 7]
  have "fst (pingServer failing_prober 7 example_heap (Some 0)) = False \<and>
   failureCount (snd (pingServer failing_prober 7 example_heap (Some 0)) 0) =
     failureCount (example_heap 0) + 1 \<and>
   isAlive (pingServer_repeat 2 failing_prober 7 example_heap 0 0) \<and>
   \<not> isAlive (pingServer_repeat 3 failing_prober 7 example_heap 0 0)"
    by blast
  moreover
  from succeeds pingServer_updates [of "failing_prober\<lparr>pingImplementation := (\<lambda>a t. True)\<rparr>"
      "pingServer_repeat 3 failing_prober 7 example_heap 0" 0 8]
  have "isAlive (snd (pingServer (failing_prober\<lparr>pingImplementation := (\<lambda>a t. True)\<rparr>) 8
     (pingServer_repeat 3 failing_prober 7 example_heap 0) (Some 0)) 0)"
    by blast
  ultimately show ?thesis
    using never fails start succeeds by blast
qed

text \<open>
  Claim C5. \<open>resolveHostname\<close> returns a name that \<open>inet_pton\<close> accepts as a numeric
  address unchanged, with the cache and the record of resolver calls untouched. For any
  other name, an entry whose expiry lies after the clock value is returned without a
  resolver call and without a change to the cache. With no entry, or an entry that has
  expired, exactly one resolver call is made: on success the address is returned and
  stored with expiry \<open>now + TTL\<close>, and a second call before that expiry returns the
  same address without a further resolver call; on failure the empty string is returned
  and the cache is left as it was.
\<close>

theorem resolveHostname_cases:
  "(inet_pton4 hostname \<longrightarrow>
      resolveHostname inet_pton4 getaddrinfo now1 now2 ps calls hostname =
        (hostname, ps, calls)) \<and>
   (\<not> inet_pton4 hostname \<and> dnsCache ps hostname = Some entry \<and> now1 < expiryTime entry \<longrightarrow>
      resolveHostname inet_pton4 getaddrinfo now1 now2 ps calls hostname =
        (resolvedIP entry, ps, calls)) \<and>
   (\<not> inet_pton4 hostname \<and>
    (dnsCache ps hostname = None \<or>
     (dnsCache ps hostname = Some entry \<and> expiryTime entry \<le> now1)) \<and>
    getaddrinfo hostname = Some ip \<longrightarrow>
      resolveHostname inet_pton4 getaddrinfo now1 now2 ps calls hostname =
        (ip,
         ps\<lparr>dnsCache := (dnsCache ps)(hostname \<mapsto>
               \<lparr>resolvedIP = ip, expiryTime = now2 + dnsCacheTTL ps\<rparr>)\<rparr>,
         calls @ [hostname]) \<and>
      (now3 < now2 + dnsCacheTTL ps \<longrightarrow>
         resolveHostname inet_pton4 getaddrinfo now3 now4
           (fst (snd (resolveHostname inet_pton4 getaddrinfo now1 now2 ps calls hostname)))
           (snd (snd (resolveHostname inet_pton4 getaddrinfo now1 now2 ps calls hostname)))
           hostname =
         (ip,
          fst (snd (resolveHostname inet_pton4 getaddrinfo now1 now2 ps calls hostname)),
          calls @ [hostname]))) \<and>
   (\<not> inet_pton4 hostname \<and>
    (dnsCache ps hostname = None \<or>
     (dnsCache ps hostname = Some entry \<and> expiryTime entry \<le> now1)) \<and>
    getaddrinfo hostname = None \<longrightarrow>
      resolveHostname inet_pton4 getaddrinfo now1 now2 ps calls hostname =
        ('''', ps, calls @ [hostname]))"
proof (intro conjI impI)
  assume "inet_pton4 hostname"
  then show "resolveHostname inet_pton4 getaddrinfo now1 now2 ps calls hostname =
      (hostname, ps, calls)"
    by (simp add: resolveHostname_def)
next
  assume "\<not> inet_pton4 hostname \<and> dnsCache ps hostname = Some entry \<and> now1 < expiryTime entry"
  then show "resolveHostname inet_pton4 getaddrinfo now1 now2 ps calls hostname =
      (resolvedIP entry, ps, calls)"
    by (simp add: resolveHostname_def)
next
  assume a: "\<not> inet_pton4 hostname \<and>
    (dnsCache ps hostname = None \<or>
     (dnsCache ps hostname = Some entry \<and> expiryTime entry \<le> now1)) \<and>
    getaddrinfo hostname = Some ip"
  then show first: "resolveHostname inet_pton4 getaddrinfo now1 now2 ps calls hostname =
      (ip,
       ps\<lparr>dnsCache := (dnsCache ps)(hostname \<mapsto>
             \<lparr>resolvedIP = ip, expiryTime = now2 + dnsCacheTTL ps\<rparr>)\<rparr>,
       calls @ [hostname])"
    by (auto simp: resolveHostname_def)
  assume "now3 < now2 + dnsCacheTTL ps"
  with a show "resolveHostname inet_pton4 getaddrinfo now3 now4
        (fst (snd (resolveHostname inet_pton4 getaddrinfo now1 now2 ps calls hostname)))
        (snd (snd (resolveHostname inet_pton4 getaddrinfo now1 now2 ps calls hostname)))
        hostname =
      (ip,
       fst (snd (resolveHostname inet_pton4 getaddrinfo now1 now2 ps calls hostname)),
       calls @ [hostname])"
    unfolding first by (simp add: resolveHostname_def)
next
  assume "\<not> inet_pton4 hostname \<and>
    (dnsCache ps hostname = None \<or>
     (dnsCache ps hostname = Some entry \<and> expiryTime entry \<le> now1)) \<and>
    getaddrinfo hostname = None"
  then show "resolveHostname inet_pton4 getaddrinfo now1 now2 ps calls hostname =
      ('''', ps, calls @ [hostname])"
    by (auto simp: resolveHostname_def)
qed

text \<open>A literal, a fresh cache entry, an expired entry and an unknown name.\<close>

theorem resolveHostname_cases_witness:
  "example_inet_pton4 ''10.0.0.1'' \<and>
   resolveHostname example_inet_pton4 example_getaddrinfo 100 101 example_prober []
     ''10.0.0.1'' = (''10.0.0.1'', example_prober, []) \<and>
   \<not> example_inet_pton4 ''backend.local'' \<and>
   dnsCache example_prober ''backend.local'' =
     Some \<lparr>resolvedIP = ''10.0.0.7'', expiryTime = 500\<rparr> \<and>
   resolveHostname example_inet_pton4 example_getaddrinfo 100 101 example_prober []
     ''backend.local'' = (''10.0.0.7'', example_prober, []) \<and>
   example_getaddrinfo ''backend.local'' = Some ''10.0.0.9'' \<and>
   resolveHostname example_inet_pton4 example_getaddrinfo 500 501 example_prober []
     ''backend.local'' =
       (''10.0.0.9'',
        example_prober\<lparr>dnsCache := (dnsCache example_prober)(''backend.local'' \<mapsto>
          \<lparr>resolvedIP = ''10.0.0.9'', expiryTime = 501 + dnsCacheTTL example_prober\<rparr>)\<rparr>,
        [''backend.local'']) \<and>
   (600::int) < 501 + dnsCacheTTL example_prober \<and>
   resolveHostname example_inet_pton4 example_getaddrinfo 600 601
     (fst (snd (resolveHostname example_inet_pton4 example_getaddrinfo 500 501 example_prober []
        ''backend.local'')))
     [''backend.local''] ''backend.local'' =
       (''10.0.0.9'',
        fst (snd (resolveHostname example_inet_pton4 example_getaddrinfo 500 501 example_prober []
          ''backend.local'')),
        [''backend.local'']) \<and>
   \<not> example_inet_pton4 ''nowhere.local'' \<and>
   dnsCache example_prober ''nowhere.local'' = None \<and>
   example_getaddrinfo ''nowhere.local'' = None \<and>
   resolveHostname example_inet_pton4 example_getaddrinfo 100 101 example_prober []
     ''nowhere.local'' = ('''', example_prober, [''nowhere.local''])"
proof -
  let ?e = "\<lparr>resolvedIP = ''10.0.0.7'', expiryTime = 500\<rparr>"
  have lit: "example_inet_pton4 ''10.0.0.1''"
    and nolit: "\<not> example_inet_pton4 ''backend.local''" "\<not> example_inet_pton4 ''nowhere.local''"
    by (simp_all add: example_inet_pton4_def)
  have cached: "dnsCache example_prober ''backend.local'' = Some ?e"
    and fresh: "(100::int) < expiryTime ?e" and stale: "expiryTime ?e \<le> (500::int)"
    and miss: "dnsCache example_prober ''nowhere.local'' = None"
    by (simp_all add: example_prober_def)
  have res: "example_getaddrinfo ''backend.local'' = Some ''10.0.0.9''"
    "example_getaddrinfo ''nowhere.local'' = None"
    by (simp_all add: example_getaddrinfo_def)
  from lit resolveHostname_cases [of example_inet_pton4 "''10.0.0.1''" example_getaddrinfo
      100 101 example_prober "[]"]
  have 1: "resolveHostname example_inet_pton4 example_getaddrinfo 100 101 example_prober []
     ''10.0.0.1'' = (''10.0.0.1'', example_prober, [])"
    by blast
  from nolit cached fresh
    resolveHostname_cases [of example_inet_pton4 "''backend.local''" example_getaddrinfo
      100 101 example_prober "[]" ?e]
  have 2: "resolveHostname example_inet_pton4 example_getaddrinfo 100 101 example_prober []
     ''backend.local'' = (resolvedIP ?e, example_prober, [])"
    by blast
  from nolit cached stale res
    resolveHostname_cases [of example_inet_pton4 "''backend.local''" example_getaddrinfo
      500 501 example_prober "[]" ?e "''10.0.0.9''"]
  have 3: "resolveHostname example_inet_pton4 example_getaddrinfo 500 501 example_prober []
     ''backend.local'' =
       (''10.0.0.9'',
        example_prober\<lparr>dnsCache := (dnsCache example_prober)(''backend.local'' \<mapsto>
          \<lparr>resolvedIP = ''10.0.0.9'', expiryTime = 501 + dnsCacheTTL example_prober\<rparr>)\<rparr>,
        [] @ [''backend.local''])"
    by blast
  have within: "(600::int) < 501 + dnsCacheTTL example_prober"
    by (simp add: example_prober_def)
  from nolit cached stale res within
    resolveHostname_cases [of example_inet_pton4 "''backend.local''" example_getaddrinfo
      500 501 example_prober "[]" ?e "''10.0.0.9''" 600 601]
  have "resolveHostname example_inet_pton4 example_getaddrinfo 600 601
     (fst (snd (resolveHostname example_inet_pton4 example_getaddrinfo 500 501 example_prober []
        ''backend.local'')))
     (snd (snd (resolveHostname example_inet_pton4 example_getaddrinfo 500 501 example_prober []
        ''backend.local'')))
     ''backend.local'' =
       (''10.0.0.9'',
        fst (snd (resolveHostname example_inet_pton4 example_getaddrinfo 500 501 example_prober []
          ''backend.local'')),
        [] @ [''backend.local''])"
    by blast
  then have 5: "resolveHostname example_inet_pton4 example_getaddrinfo 600 601
     (fst (snd (resolveHostname example_inet_pton4 example_getaddrinfo 500 501 example_prober []
        ''backend.local'')))
     [''backend.local''] ''backend.local'' =
       (''10.0.0.9'',
        fst (snd (resolveHostname example_inet_pton4 example_getaddrinfo 500 501 example_prober []
          ''backend.local'')),
        [''backend.local''])"
    by (simp add: 3)
  from nolit miss res
    resolveHostname_cases [of example_inet_pton4 "''nowhere.local''" example_getaddrinfo
      100 101 example_prober "[]" ?e]
  have 4: "resolveHostname example_inet_pton4 example_getaddrinfo 100 101 example_prober []
     ''nowhere.local'' = ('''', example_prober, [] @ [''nowhere.local''])"
    by blast
  from 3 have 3: "resolveHostname example_inet_pton4 example_getaddrinfo 500 501
      example_prober [] ''backend.local'' =
       (''10.0.0.9'',
        example_prober\<lparr>dnsCache := (dnsCache example_prober)(''backend.local'' \<mapsto>
          \<lparr>resolvedIP = ''10.0.0.9'', expiryTime = 501 + dnsCacheTTL example_prober\<rparr>)\<rparr>,
        [''backend.local''])"
    by simp
  from 2 have 2: "resolveHostname example_inet_pton4 example_getaddrinfo 100 101
      example_prober [] ''backend.local'' = (''10.0.0.7'', example_prober, [])"
    by simp
  from 4 have 4: "resolveHostname example_inet_pton4 example_getaddrinfo 100 101
      example_prober [] ''nowhere.local'' = ('''', example_prober, [''nowhere.local''])"
    by simp
  from lit nolit cached res miss within 1 2 3 4 5 show ?thesis
    by blast
qed

lemma string_find_drop:
  "string_find c s i =
     (if c \<in> set (drop i s) then Some (i + length (takeWhile (\<lambda>x. x \<noteq> c) (drop i s)))
      else None)"
proof (induction c s i rule: string_find.induct)
  case (1 c s i)
  show ?case
  proof (cases "i < length s")
    case False
    then show ?thesis
      by (subst string_find.simps) simp
  next
    case True
    then have split: "drop i s = s ! i # drop (i + 1) s"
      by (simp add: Cons_nth_drop_Suc)
    show ?thesis
    proof (cases "s ! i = c")
      case True
      with \<open>i < length s\<close> split show ?thesis
        by (subst string_find.simps) simp
    next
      case False
      with \<open>i < length s\<close> split "1.IH" show ?thesis
        by (subst string_find.simps) simp
    qed
  qed
qed

lemma string_find_none: "c \<notin> set s \<Longrightarrow> string_find c s 0 = None"
  by (simp add: string_find_drop)

lemma takeWhile_until:
  "c \<notin> set hst \<Longrightarrow> takeWhile (\<lambda>x. x \<noteq> c) (hst @ c # rest) = hst"
  by (induction hst) auto

lemma string_find_first:
  "c \<notin> set hst \<Longrightarrow> string_find c (hst @ c # rest) 0 = Some (length hst)"
  by (simp add: string_find_drop takeWhile_until)

lemma parse_split:
  "CHR '':'' \<notin> set hst \<Longrightarrow>
   parseServerAddress (hst @ CHR '':'' # rest) port0 =
     (case stoi rest of Some port \<Rightarrow> (True, hst, port) | None \<Rightarrow> (False, hst, port0))"
  by (simp add: parseServerAddress_def string_find_first)

lemma decimal_nonneg:
  "0 \<le> acc \<Longrightarrow> \<forall>c \<in> set ds. isdigit c \<Longrightarrow> 0 \<le> decimal acc ds"
proof (induction ds arbitrary: acc)
  case Nil
  then show ?case by simp
next
  case (Cons c cs)
  from Cons.prems(2) have "48 \<le> (of_char c :: nat)"
    by (simp add: isdigit_def)
  with Cons.prems(1) have "0 \<le> 10 * acc + (int (of_char c) - 48)"
    by simp
  with Cons.IH Cons.prems(2) show ?case
    by simp
qed

lemma digit_not_space: "isdigit c \<Longrightarrow> \<not> isspace c"
  by (auto simp: isdigit_def isspace_def)

lemma digit_not_sign: "isdigit c \<Longrightarrow> c \<noteq> CHR ''-'' \<and> c \<noteq> CHR ''+''"
  by (auto simp: isdigit_def)

lemma stoi_digits:
  assumes ne: "ds \<noteq> []" and digits: "\<forall>c \<in> set ds. isdigit c"
    and range: "decimal 0 ds \<le> 2 ^ 31 - 1"
    and stop: "rest = [] \<or> \<not> isdigit (hd rest)"
  shows "stoi (ds @ rest) = Some (decimal 0 ds)"
proof -
  from ne obtain d ds' where ds: "ds = d # ds'"
    by (cases ds) auto
  with digits have d: "isdigit d"
    by simp
  then have "\<not> isspace d" and "d \<noteq> CHR ''-''" and "d \<noteq> CHR ''+''"
    by (simp_all add: digit_not_space digit_not_sign)
  then have s1: "dropWhile isspace (ds @ rest) = ds @ rest"
    and sign: "hd (ds @ rest) \<noteq> CHR ''-''" "hd (ds @ rest) \<noteq> CHR ''+''"
    by (simp_all add: ds)
  from stop have "takeWhile isdigit rest = []"
    by (cases rest) auto
  with digits have tw: "takeWhile isdigit (ds @ rest) = ds"
    by (simp add: takeWhile_append2)
  from digits have "0 \<le> decimal 0 ds"
    by (simp add: decimal_nonneg)
  with range ne s1 sign tw show ?thesis
    by (simp add: stoi_def Let_def)
qed

lemma stoi_no_digits:
  assumes "rest = [] \<or>
    (\<not> isspace (hd rest) \<and> \<not> isdigit (hd rest) \<and> hd rest \<noteq> CHR ''-'' \<and> hd rest \<noteq> CHR ''+'')"
  shows "stoi rest = None"
  using assms by (cases rest) (auto simp: stoi_def Let_def)

text \<open>
  Claim C6, amended. \<open>parseServerAddress\<close> splits the address at its first colon. With
  no colon the host is the whole string, the port is 80 and the result is true. With a
  colon, the host is the part before the first colon and the rest is handed to
  \<open>std::stoi\<close>: when that yields a number the result is true with that port, and when
  it throws the result is false, the port is left as it was and nothing is thrown. In
  particular a rest that starts with a run of decimal digits within \<open>int\<close> gives that
  number, and an empty rest, or one that starts with neither white space, a sign nor a
  digit, gives false.
\<close>

theorem parseServerAddress_first_colon:
  "(CHR '':'' \<notin> set addr \<longrightarrow> parseServerAddress addr port0 = (True, addr, 80)) \<and>
   (CHR '':'' \<notin> set hst \<longrightarrow>
      parseServerAddress (hst @ CHR '':'' # rest) port0 =
        (case stoi rest of Some port \<Rightarrow> (True, hst, port) | None \<Rightarrow> (False, hst, port0))) \<and>
   (CHR '':'' \<notin> set hst \<and> ds \<noteq> [] \<and> (\<forall>c \<in> set ds. isdigit c) \<and>
    decimal 0 ds \<le> 2 ^ 31 - 1 \<and> (tail = [] \<or> \<not> isdigit (hd tail)) \<longrightarrow>
      parseServerAddress (hst @ CHR '':'' # ds @ tail) port0 = (True, hst, decimal 0 ds)) \<and>
   (CHR '':'' \<notin> set hst \<and>
    (rest = [] \<or> (\<not> isspace (hd rest) \<and> \<not> isdigit (hd rest) \<and>
                  hd rest \<noteq> CHR ''-'' \<and> hd rest \<noteq> CHR ''+'')) \<longrightarrow>
      parseServerAddress (hst @ CHR '':'' # rest) port0 = (False, hst, port0))"
proof (intro conjI impI)
  assume "CHR '':'' \<notin> set addr"
  then show "parseServerAddress addr port0 = (True, addr, 80)"
    by (simp add: parseServerAddress_def string_find_none)
next
  assume "CHR '':'' \<notin> set hst"
  then show "parseServerAddress (hst @ CHR '':'' # rest) port0 =
      (case stoi rest of Some port \<Rightarrow> (True, hst, port) | None \<Rightarrow> (False, hst, port0))"
    by (rule parse_split)
next
  assume a: "CHR '':'' \<notin> set hst \<and> ds \<noteq> [] \<and> (\<forall>c \<in> set ds. isdigit c) \<and>
    decimal 0 ds \<le> 2 ^ 31 - 1 \<and> (tail = [] \<or> \<not> isdigit (hd tail))"
  then have "stoi (ds @ tail) = Some (decimal 0 ds)"
    by (intro stoi_digits) simp_all
  with a show "parseServerAddress (hst @ CHR '':'' # ds @ tail) port0 = (True, hst, decimal 0 ds)"
    by (simp add: parse_split)
next
  assume a: "CHR '':'' \<notin> set hst \<and>
    (rest = [] \<or> (\<not> isspace (hd rest) \<and> \<not> isdigit (hd rest) \<and>
                  hd rest \<noteq> CHR ''-'' \<and> hd rest \<noteq> CHR ''+''))"
  then have "stoi rest = None"
    by (intro stoi_no_digits) simp
  with a show "parseServerAddress (hst @ CHR '':'' # rest) port0 = (False, hst, port0)"
    by (simp add: parse_split)
qed

text \<open>An address without a port, one with a numeric port and one with a word for a port.\<close>

theorem parseServerAddress_first_colon_witness:
  "CHR '':'' \<notin> set ''localhost'' \<and>
   parseServerAddress ''localhost'' 0 = (True, ''localhost'', 80) \<and>
   CHR '':'' \<notin> set ''10.0.0.1'' \<and> isdigit CHR ''8'' \<and> isdigit CHR ''0'' \<and>
   decimal 0 ''8080'' \<le> 2 ^ 31 - 1 \<and>
   parseServerAddress ''10.0.0.1:8080'' 0 = (True, ''10.0.0.1'', 8080) \<and>
   CHR '':'' \<notin> set ''host'' \<and> \<not> isspace (hd ''http'') \<and> \<not> isdigit (hd ''http'') \<and>
   parseServerAddress ''host:http'' 7 = (False, ''host'', 7)"
proof -
  have nocolon: "CHR '':'' \<notin> set ''localhost''" "CHR '':'' \<notin> set ''10.0.0.1''"
      "CHR '':'' \<notin> set ''host''"
    by simp_all
  have digits: "''8080'' \<noteq> []" "\<forall>c \<in> set ''8080''. isdigit c"
      "decimal 0 ''8080'' \<le> 2 ^ 31 - 1" "[] = [] \<or> \<not> isdigit (hd [])"
    by (simp_all add: isdigit_def)
  have word: "\<not> isspace (hd ''http'')" "\<not> isdigit (hd ''http'')"
      "hd ''http'' \<noteq> CHR ''-''" "hd ''http'' \<noteq> CHR ''+''"
    by (simp_all add: isdigit_def isspace_def)
  from nocolon parseServerAddress_first_colon [of "''localhost''" 0 "[]" "[]" "[]" "[]"]
  have 1: "parseServerAddress ''localhost'' 0 = (True, ''localhost'', 80)"
    by blast
  from nocolon digits
    parseServerAddress_first_colon [of "''localhost''" 0 "''10.0.0.1''" "[]" "''8080''" "[]"]
  have 2: "parseServerAddress (''10.0.0.1'' @ CHR '':'' # ''8080'' @ []) 0 =
      (True, ''10.0.0.1'', decimal 0 ''8080'')"
    by blast
  from nocolon word
    parseServerAddress_first_colon [of "''localhost''" 7 "''host''" "''http''" "[]" "[]"]
  have 3: "parseServerAddress (''host'' @ CHR '':'' # ''http'') 7 = (False, ''host'', 7)"
    by blast
  from 2 have 2: "parseServerAddress ''10.0.0.1:8080'' 0 = (True, ''10.0.0.1'', 8080)"
    by simp
  from 3 have 3: "parseServerAddress ''host:http'' 7 = (False, ''host'', 7)"
    by simp
  have "isdigit CHR ''8''" and "isdigit CHR ''0''"
    by (simp_all add: isdigit_def)
  with nocolon digits(3) word 1 2 3 show ?thesis
    by blast
qed

text \<open>
  Claim C6, as stated: the address is split at its last colon. It fails for an address
  with two colons: for \<open>a:80:90\<close> the part before the last colon is \<open>a:80\<close> and the part
  after it parses as 90, but the function returns host \<open>a\<close> and port 80.
\<close>

theorem parseServerAddress_last_colon_counterexample:
  "parseServerAddress ''a:80:90'' 0 = (True, ''a'', 80) \<and>
   before_last_colon ''a:80:90'' = ''a:80'' \<and>
   stoi (after_last_colon ''a:80:90'') = Some 90"
  by (simp add: parseServerAddress_def string_find.simps stoi_def isspace_def isdigit_def
      Let_def before_last_colon_def after_last_colon_def)

section \<open>Properties of the balancers\<close>

text \<open>
  Claim C8. Both constructors fail with \<open>std::invalid_argument\<close> on an empty server
  list, and succeed on a non-empty one, yielding a balancer that holds the given list
  with its cursor at 0.
\<close>

theorem constructors_reject_empty:
  "RoundRobinLoadBalancer_new [] interval maxFailures = Inl invalid_argument \<and>
   WeightedRoundRobinLoadBalancer_new h [] interval maxFailures = Inl invalid_argument \<and>
   (servers \<noteq> [] \<longrightarrow>
      (\<exists>lb. RoundRobinLoadBalancer_new servers interval maxFailures = Inr lb \<and>
            serversList lb = servers \<and> currentServerIndex lb = 0) \<and>
      (\<exists>lb. WeightedRoundRobinLoadBalancer_new h servers interval maxFailures = Inr lb \<and>
            serversList lb = servers \<and> weightedCurrentServerIndex lb = 0))"
  by (simp add: RoundRobinLoadBalancer_new_def WeightedRoundRobinLoadBalancer_new_def
      updateWeightedList_def)

text \<open>Both constructors on a pool of two servers.\<close>

theorem constructors_reject_empty_witness:
  "[0::ptr, 1] \<noteq> [] \<and>
   (\<exists>lb. RoundRobinLoadBalancer_new [0, 1] 5000 3 = Inr lb \<and> serversList lb = [0, 1]) \<and>
   (\<exists>lb. WeightedRoundRobinLoadBalancer_new example_heap [0, 1] 5000 3 = Inr lb \<and>
         serversList lb = [0, 1])"
proof -
  have ne: "[0::ptr, 1] \<noteq> []"
    by simp
  from ne constructors_reject_empty [of 5000 3 example_heap "[0, 1]"]
  show ?thesis
    by blast
qed

text \<open>
  Claim C9. \<open>addServer\<close> returns false and leaves the balancer unchanged when the pool
  holds a server with the same address (and also for a null pointer), and otherwise
  appends the server and returns true. \<open>removeServer\<close> returns false and leaves the
  balancer unchanged when no server of the pool has the address, and otherwise removes
  every server with that address, keeping the order of the others, and returns true.
\<close>

theorem addServer_removeServer:
  "((\<exists>s \<in> set (serversList lb). serverAddress (h s) = serverAddress (h p)) \<longrightarrow>
      addServer h (Some p) lb = (False, lb)) \<and>
   ((\<forall>s \<in> set (serversList lb). serverAddress (h s) \<noteq> serverAddress (h p)) \<longrightarrow>
      addServer h (Some p) lb = (True, lb\<lparr>serversList := serversList lb @ [p]\<rparr>)) \<and>
   addServer h None lb = (False, lb) \<and>
   ((\<forall>s \<in> set (serversList lb). serverAddress (h s) \<noteq> addr) \<longrightarrow>
      removeServer h addr lb = (False, lb)) \<and>
   ((\<exists>s \<in> set (serversList lb). serverAddress (h s) = addr) \<longrightarrow>
      removeServer h addr lb =
        (True, lb\<lparr>serversList := filter (\<lambda>s. serverAddress (h s) \<noteq> addr) (serversList lb)\<rparr>) \<and>
      (\<forall>s \<in> set (serversList (snd (removeServer h addr lb))). serverAddress (h s) \<noteq> addr))"
proof (intro conjI impI)
  assume "\<exists>s \<in> set (serversList lb). serverAddress (h s) = serverAddress (h p)"
  then have "find (\<lambda>s. serverAddress (h s) = serverAddress (h p)) (serversList lb) \<noteq> None"
    by (auto simp: find_None_iff)
  then show "addServer h (Some p) lb = (False, lb)"
    by (auto simp: addServer_def split: option.splits)
next
  assume "\<forall>s \<in> set (serversList lb). serverAddress (h s) \<noteq> serverAddress (h p)"
  then have "find (\<lambda>s. serverAddress (h s) = serverAddress (h p)) (serversList lb) = None"
    by (simp add: find_None_iff)
  then show "addServer h (Some p) lb = (True, lb\<lparr>serversList := serversList lb @ [p]\<rparr>)"
    by (simp add: addServer_def)
next
  show "addServer h None lb = (False, lb)"
    by (simp add: addServer_def)
next
  assume "\<forall>s \<in> set (serversList lb). serverAddress (h s) \<noteq> addr"
  then have "filter (\<lambda>s. serverAddress (h s) \<noteq> addr) (serversList lb) = serversList lb"
    by (simp add: filter_id_conv)
  then show "removeServer h addr lb = (False, lb)"
    by (simp add: removeServer_def Let_def)
next
  assume "\<exists>s \<in> set (serversList lb). serverAddress (h s) = addr"
  then have "length (filter (\<lambda>s. serverAddress (h s) \<noteq> addr) (serversList lb))
      < length (serversList lb)"
    by (auto intro: length_filter_less)
  then show "removeServer h addr lb =
        (True, lb\<lparr>serversList := filter (\<lambda>s. serverAddress (h s) \<noteq> addr) (serversList lb)\<rparr>)"
    by (simp add: removeServer_def Let_def)
next
  show "\<forall>s \<in> set (serversList (snd (removeServer h addr lb))). serverAddress (h s) \<noteq> addr"
    by (simp add: removeServer_def Let_def)
qed

text \<open>A duplicate and a new address added, an absent and a present address removed.\<close>

theorem addServer_removeServer_witness:
  "(\<exists>s \<in> set (serversList (example_balancer [0, 1] 0)).
      serverAddress (example_store s) = serverAddress (example_store 1)) \<and>
   addServer example_store (Some 1) (example_balancer [0, 1] 0) =
     (False, example_balancer [0, 1] 0) \<and>
   serverAddress (example_store 0) \<noteq> serverAddress (example_store 3) \<and>
   serverAddress (example_store 1) \<noteq> serverAddress (example_store 3) \<and>
   addServer example_store (Some 3) (example_balancer [0, 1] 0) =
     (True, example_balancer [0, 1, 3] 0) \<and>
   serverAddress (example_store 0) \<noteq> ''e:80'' \<and>
   serverAddress (example_store 1) \<noteq> ''e:80'' \<and>
   removeServer example_store ''e:80'' (example_balancer [0, 1] 0) =
     (False, example_balancer [0, 1] 0) \<and>
   (\<exists>s \<in> set (serversList (example_balancer [0, 1] 0)).
      serverAddress (example_store s) = ''a:80'') \<and>
   removeServer example_store ''a:80'' (example_balancer [0, 1] 0) =
     (True, example_balancer [1] 0)"
proof -
  let ?lb = "example_balancer [0, 1] 0"
  have dup: "\<exists>s \<in> set (serversList ?lb).
      serverAddress (example_store s) = serverAddress (example_store 1)"
    and new: "\<forall>s \<in> set (serversList ?lb).
      serverAddress (example_store s) \<noteq> serverAddress (example_store 3)"
    and absent: "\<forall>s \<in> set (serversList ?lb). serverAddress (example_store s) \<noteq> ''e:80''"
    and present: "\<exists>s \<in> set (serversList ?lb). serverAddress (example_store s) = ''a:80''"
    by (simp_all add: example_defs)
  from dup addServer_removeServer [of ?lb example_store 1]
  have 1: "addServer example_store (Some 1) ?lb = (False, ?lb)"
    by blast
  from new addServer_removeServer [of ?lb example_store 3]
  have 2: "addServer example_store (Some 3) ?lb =
      (True, ?lb\<lparr>serversList := serversList ?lb @ [3]\<rparr>)"
    by blast
  from absent addServer_removeServer [of ?lb example_store 0 "''e:80''"]
  have 3: "removeServer example_store ''e:80'' ?lb = (False, ?lb)"
    by blast
  from present addServer_removeServer [of ?lb example_store 0 "''a:80''"]
  have 4: "removeServer example_store ''a:80'' ?lb =
      (True, ?lb\<lparr>serversList :=
         filter (\<lambda>s. serverAddress (example_store s) \<noteq> ''a:80'') (serversList ?lb)\<rparr>)"
    by blast
  from 2 have 2: "addServer example_store (Some 3) ?lb = (True, example_balancer [0, 1, 3] 0)"
    by (simp add: example_balancer_def)
  from 4 have 4: "removeServer example_store ''a:80'' ?lb = (True, example_balancer [1] 0)"
    by (simp add: example_defs)
  have "serverAddress (example_store 0) \<noteq> serverAddress (example_store 3)"
    and "serverAddress (example_store 1) \<noteq> serverAddress (example_store 3)"
    and "serverAddress (example_store 0) \<noteq> ''e:80''"
    and "serverAddress (example_store 1) \<noteq> ''e:80''"
    by (simp_all add: example_defs)
  with dup present 1 2 3 4 show ?thesis
    by blast
qed

lemma push_copies_replicate:
  "push_copies i w p acc = acc @ replicate (unat w - unat i) p"
proof (induction i w p acc rule: push_copies.induct)
  case (1 i w server acc)
  show ?case
  proof (cases "i < w")
    case False
    then have "unat w - unat i = 0"
      by (simp add: word_less_nat_alt)
    with False show ?thesis
      by (subst push_copies.simps) simp
  next
    case True
    then have lt: "unat i < unat w"
      by (simp add: word_less_nat_alt)
    moreover have "unat w < 2 ^ 32"
      using unsigned_less [of w, where ?'a = nat] by simp
    ultimately have "unat i + unat (1::uint32) < 2 ^ LENGTH(32)"
      by simp
    then have "unat (i + 1) = unat i + unat (1::uint32)"
      by (simp only: unat_add_lem)
    then have step: "unat w - unat i = Suc (unat w - unat (i + 1))"
      using lt by simp
    have "push_copies i w server acc = push_copies (i + 1) w server (acc @ [server])"
      using True by (subst push_copies.simps) simp
    also have "\<dots> = (acc @ [server]) @ replicate (unat w - unat (i + 1)) server"
      using True by (rule "1.IH")
    also have "\<dots> = acc @ replicate (unat w - unat i) server"
      by (simp add: step)
    finally show ?thesis .
  qed
qed

lemma count_list_copies: "count_list (replicate n x) y = (if x = y then n else 0)"
  by (induction n) auto

lemma weighted_loop_expansion: "weighted_loop h pool acc = acc @ expansion h pool"
  by (induction pool arbitrary: acc) (simp_all add: expansion_def push_copies_replicate)

lemma updateWeightedList_expansion:
  "updateWeightedList h lb = lb\<lparr>weightedServersList := expansion h (serversList lb)\<rparr>"
  by (simp add: updateWeightedList_def weighted_loop_expansion)

text \<open>
  Claim C3. \<open>updateWeightedList\<close> replaces the expansion list by the concatenation, in
  pool order, of \<open>weight\<close> consecutive copies of every alive pool entry; an entry that
  is not alive contributes nothing, whatever its weight, and the pool is unchanged.
  \<open>getNextServer\<close> of the weighted balancer holds the rebuilt list afterwards exactly
  when the list was empty at the call, and otherwise the list it had; the selection
  runs on that list.
\<close>

theorem updateWeightedList_rebuild:
  "weightedServersList (updateWeightedList h lb) =
     concat (map (\<lambda>p. if isAlive (h p) then replicate (unat (weight (h p))) p else [])
               (serversList lb)) \<and>
   serversList (updateWeightedList h lb) = serversList lb \<and>
   (\<forall>p. count_list (weightedServersList (updateWeightedList h lb)) p =
        (if isAlive (h p) then count_list (serversList lb) p * unat (weight (h p)) else 0)) \<and>
   weightedServersList (snd (WeightedRoundRobin_getNextServer h lb)) =
     (if weightedServersList lb = [] then expansion h (serversList lb)
      else weightedServersList lb) \<and>
   fst (WeightedRoundRobin_getNextServer h lb) =
     (if weightedServersList lb = []
      then (if expansion h (serversList lb) = [] then None
            else fst (select_next h (expansion h (serversList lb))
                        (weightedCurrentServerIndex lb)))
      else fst (select_next h (weightedServersList lb) (weightedCurrentServerIndex lb)))"
proof (intro conjI)
  show "weightedServersList (updateWeightedList h lb) =
     concat (map (\<lambda>p. if isAlive (h p) then replicate (unat (weight (h p))) p else [])
               (serversList lb))"
    by (simp add: updateWeightedList_expansion expansion_def)
  show "serversList (updateWeightedList h lb) = serversList lb"
    by (simp add: updateWeightedList_expansion)
  have count: "count_list (expansion h pool) p =
      (if isAlive (h p) then count_list pool p * unat (weight (h p)) else 0)" for pool p
    by (induction pool) (auto simp: expansion_def count_list_append count_list_copies)
  show "\<forall>p. count_list (weightedServersList (updateWeightedList h lb)) p =
        (if isAlive (h p) then count_list (serversList lb) p * unat (weight (h p)) else 0)"
    by (simp add: updateWeightedList_expansion count)
  show "weightedServersList (snd (WeightedRoundRobin_getNextServer h lb)) =
     (if weightedServersList lb = [] then expansion h (serversList lb)
      else weightedServersList lb)"
    by (simp add: WeightedRoundRobin_getNextServer_def updateWeightedList_expansion Let_def
        split: prod.splits)
  show "fst (WeightedRoundRobin_getNextServer h lb) =
     (if weightedServersList lb = []
      then (if expansion h (serversList lb) = [] then None
            else fst (select_next h (expansion h (serversList lb))
                        (weightedCurrentServerIndex lb)))
      else fst (select_next h (weightedServersList lb) (weightedCurrentServerIndex lb)))"
    by (simp add: WeightedRoundRobin_getNextServer_def updateWeightedList_expansion Let_def
        split: prod.splits)
qed

text \<open>Weights 3 and 1 on two alive servers, with a dead server of weight 2 between them.\<close>

lemma expansion_example:
  "weightedServersList (updateWeightedList example_store example_weighted) = [0, 0, 0, 1]"
  by (simp add: updateWeightedList_def example_weighted_def example_defs push_copies.simps)

lemma index_loop_drop:
  "index_loop xs p i =
     (if p \<in> set (drop i xs) then Some (i + length (takeWhile (\<lambda>q. q \<noteq> p) (drop i xs)))
      else None)"
proof (induction xs p i rule: index_loop.induct)
  case (1 xs p i)
  show ?case
  proof (cases "i < length xs")
    case False
    then show ?thesis
      by (subst index_loop.simps) simp
  next
    case True
    then have split: "drop i xs = xs ! i # drop (i + 1) xs"
      by (simp add: Cons_nth_drop_Suc)
    show ?thesis
    proof (cases "xs ! i = p")
      case True
      with \<open>i < length xs\<close> split show ?thesis
        by (subst index_loop.simps) simp
    next
      case False
      with \<open>i < length xs\<close> split "1.IH" show ?thesis
        by (subst index_loop.simps) simp
    qed
  qed
qed

lemma index_loop_first_index:
  "p \<in> set xs \<Longrightarrow> index_loop xs p 0 = Some (first_index xs p)"
  by (simp add: index_loop_drop first_index_def)

lemma first_index_distinct:
  "distinct xs \<Longrightarrow> j < length xs \<Longrightarrow> first_index xs (xs ! j) = j"
proof (induction xs arbitrary: j)
  case Nil
  then show ?case by simp
next
  case (Cons x xs)
  show ?case
  proof (cases j)
    case 0
    then show ?thesis by (simp add: first_index_def)
  next
    case (Suc k)
    with Cons.prems have "xs ! k \<in> set xs" and "x \<notin> set xs"
      by simp_all
    then have "x \<noteq> xs ! k"
      by auto
    with Suc Cons.IH [of k] Cons.prems show ?thesis
      by (simp add: first_index_def)
  qed
qed

text \<open>The first loop, from position \<open>i\<close> on, in terms of \<open>find\<close> over the indices it has
  still to visit.\<close>

lemma scan_loop_find:
  "scan_loop h xs c i fb =
     (case find (\<lambda>j. isAlive (h (xs ! j)) \<and> isHealthy (h (xs ! j)))
             (map (\<lambda>k. (c + k) mod length xs) [i..<length xs]) of
        Some j \<Rightarrow> Healthy j
      | None \<Rightarrow>
          NoHealthy
            (case fb of
               Some f \<Rightarrow> Some f
             | None \<Rightarrow>
                 map_option (\<lambda>j. xs ! j)
                   (find (\<lambda>j. isAlive (h (xs ! j)))
                      (map (\<lambda>k. (c + k) mod length xs) [i..<length xs]))))"
proof (induction h xs c i fb rule: scan_loop.induct)
  case (1 h xs c i fb)
  show ?case
  proof (cases "i < length xs")
    case False
    then show ?thesis
      by (subst scan_loop.simps) (simp split: option.splits)
  next
    case True
    then have upt: "[i..<length xs] = i # [Suc i..<length xs]"
      by (simp add: upt_conv_Cons)
    have good: "find (\<lambda>j. isAlive (h (xs ! j)) \<and> isHealthy (h (xs ! j)))
          (map (\<lambda>k. (c + k) mod length xs) [i..<length xs]) =
        (if isAlive (h (xs ! ((c + i) mod length xs))) \<and>
            isHealthy (h (xs ! ((c + i) mod length xs)))
         then Some ((c + i) mod length xs)
         else find (\<lambda>j. isAlive (h (xs ! j)) \<and> isHealthy (h (xs ! j)))
                (map (\<lambda>k. (c + k) mod length xs) [Suc i..<length xs]))"
      by (simp add: upt)
    have alive: "find (\<lambda>j. isAlive (h (xs ! j)))
          (map (\<lambda>k. (c + k) mod length xs) [i..<length xs]) =
        (if isAlive (h (xs ! ((c + i) mod length xs)))
         then Some ((c + i) mod length xs)
         else find (\<lambda>j. isAlive (h (xs ! j)))
                (map (\<lambda>k. (c + k) mod length xs) [Suc i..<length xs]))"
      by (simp add: upt)
    show ?thesis
    proof (cases "isAlive (h (xs ! ((c + i) mod length xs)))")
      case False
      with True "1.IH"(3) show ?thesis
        by (subst scan_loop.simps) (simp add: good alive split: option.splits)
    next
      case a: True
      show ?thesis
      proof (cases "isHealthy (h (xs ! ((c + i) mod length xs)))")
        case True
        with \<open>i < length xs\<close> a show ?thesis
          by (subst scan_loop.simps) (simp add: good alive split: option.splits)
      next
        case unhealthy: False
        show ?thesis
        proof (cases fb)
          case None
          with True a unhealthy "1.IH"(1) show ?thesis
            by (subst scan_loop.simps) (simp add: good alive split: option.splits)
        next
          case (Some f)
          with True a unhealthy "1.IH"(2) show ?thesis
            by (subst scan_loop.simps) (simp add: good alive split: option.splits)
        qed
      qed
    qed
  qed
qed

lemma find_Some_set: "find P xs = Some x \<Longrightarrow> x \<in> set xs \<and> P x"
  by (auto simp: find_Some_iff)

lemma scan_order_bound: "j \<in> set (scan_order c n) \<Longrightarrow> j < n"
  by (cases "n = 0") (auto simp: scan_order_def)

lemma scan_order_set: "0 < n \<Longrightarrow> set (scan_order c n) = {..<n}"
proof
  show "set (scan_order c n) \<subseteq> {..<n}"
    using scan_order_bound by auto
next
  assume n: "0 < n"
  show "{..<n} \<subseteq> set (scan_order c n)"
  proof
    fix j assume "j \<in> {..<n}"
    then have j: "j < n" by simp
    define i where "i = (j + n - c mod n) mod n"
    have "i < n"
      using n by (simp add: i_def)
    moreover have "(c + i) mod n = j"
    proof -
      have "c mod n < n" using n by simp
      then have "(c mod n + (j + n - c mod n)) mod n = (j + n) mod n"
        by simp
      also have "\<dots> = j" using j by simp
      finally have "(c mod n + (j + n - c mod n) mod n) mod n = j"
        by (simp add: mod_add_right_eq)
      then show ?thesis
        by (simp add: i_def mod_add_left_eq)
    qed
    ultimately show "j \<in> set (scan_order c n)"
      by (force simp: scan_order_def)
  qed
qed

lemma scan_loop_order:
  "scan_loop h xs c 0 None =
     (case find (\<lambda>j. isAlive (h (xs ! j)) \<and> isHealthy (h (xs ! j))) (scan_order c (length xs)) of
        Some j \<Rightarrow> Healthy j
      | None \<Rightarrow>
          NoHealthy (map_option (\<lambda>j. xs ! j)
            (find (\<lambda>j. isAlive (h (xs ! j))) (scan_order c (length xs)))))"
  unfolding scan_order_def by (subst scan_loop_find) (simp split: option.splits)

lemma select_next_healthy:
  assumes "find (\<lambda>j. isAlive (h (xs ! j)) \<and> isHealthy (h (xs ! j)))
      (scan_order c (length xs)) = Some j"
  shows "select_next h xs c = (Some (xs ! j), (j + 1) mod length xs)"
  using assms unfolding select_next_def scan_loop_order by simp

lemma select_next_none:
  assumes "find (\<lambda>j. isAlive (h (xs ! j)) \<and> isHealthy (h (xs ! j)))
      (scan_order c (length xs)) = None"
    and "find (\<lambda>j. isAlive (h (xs ! j))) (scan_order c (length xs)) = None"
  shows "select_next h xs c = (None, c)"
  using assms unfolding select_next_def scan_loop_order by simp

lemma select_next_fallback:
  assumes none: "find (\<lambda>j. isAlive (h (xs ! j)) \<and> isHealthy (h (xs ! j)))
      (scan_order c (length xs)) = None"
    and inner: "find (\<lambda>j. isAlive (h (xs ! j))) (scan_order c (length xs)) = Some j"
  shows "select_next h xs c = (Some (xs ! j), (first_index xs (xs ! j) + 1) mod length xs)"
proof -
  from inner have "j \<in> set (scan_order c (length xs))"
    by (rule find_Some_set [THEN conjunct1])
  then have "j < length xs"
    by (rule scan_order_bound)
  then have "index_loop xs (xs ! j) 0 = Some (first_index xs (xs ! j))"
    by (simp add: index_loop_first_index)
  then show ?thesis
    unfolding select_next_def scan_loop_order none inner by simp
qed

lemma select_next_find:
  "select_next h xs c =
     (case find (\<lambda>j. isAlive (h (xs ! j)) \<and> isHealthy (h (xs ! j))) (scan_order c (length xs)) of
        Some j \<Rightarrow> (Some (xs ! j), (j + 1) mod length xs)
      | None \<Rightarrow>
          (case find (\<lambda>j. isAlive (h (xs ! j))) (scan_order c (length xs)) of
             Some j \<Rightarrow> (Some (xs ! j), (first_index xs (xs ! j) + 1) mod length xs)
           | None \<Rightarrow> (None, c)))"
proof (cases "find (\<lambda>j. isAlive (h (xs ! j)) \<and> isHealthy (h (xs ! j))) (scan_order c (length xs))")
  case (Some j)
  then show ?thesis
    by (simp add: select_next_healthy)
next
  case None
  show ?thesis
  proof (cases "find (\<lambda>j. isAlive (h (xs ! j))) (scan_order c (length xs))")
    case inner: None
    with None show ?thesis
      by (simp add: select_next_none)
  next
    case inner: (Some j)
    with None show ?thesis
      by (simp add: select_next_fallback)
  qed
qed

lemma select_next_null_iff:
  "fst (select_next h xs c) = None \<longleftrightarrow> (\<forall>p \<in> set xs. \<not> isAlive (h p))"
proof (cases "xs = []")
  case True
  then show ?thesis
    by (simp add: select_next_find scan_order_def)
next
  case False
  then have order: "set (scan_order c (length xs)) = {..<length xs}"
    by (simp add: scan_order_set)
  have none: "find (\<lambda>j. isAlive (h (xs ! j))) (scan_order c (length xs)) = None
      \<longleftrightarrow> (\<forall>p \<in> set xs. \<not> isAlive (h p))"
  proof
    assume "find (\<lambda>j. isAlive (h (xs ! j))) (scan_order c (length xs)) = None"
    then have "\<forall>j < length xs. \<not> isAlive (h (xs ! j))"
      by (simp add: find_None_iff order)
    then show "\<forall>p \<in> set xs. \<not> isAlive (h p)"
      by (metis in_set_conv_nth)
  next
    assume "\<forall>p \<in> set xs. \<not> isAlive (h p)"
    then have "\<forall>j < length xs. \<not> isAlive (h (xs ! j))"
      by simp
    then show "find (\<lambda>j. isAlive (h (xs ! j))) (scan_order c (length xs)) = None"
      by (simp add: find_None_iff order)
  qed
  show ?thesis
  proof (cases "find (\<lambda>j. isAlive (h (xs ! j)) \<and> isHealthy (h (xs ! j)))
      (scan_order c (length xs))")
    case (Some j)
    from find_Some_set [OF Some]
    have "j \<in> set (scan_order c (length xs))" and "isAlive (h (xs ! j))"
      by simp_all
    then have "j < length xs" "isAlive (h (xs ! j))"
      by (simp_all add: order)
    then have "\<exists>p \<in> set xs. isAlive (h p)"
      using nth_mem by blast
    with Some show ?thesis
      by (simp add: select_next_healthy)
  next
    case None
    show ?thesis
    proof (cases "find (\<lambda>j. isAlive (h (xs ! j))) (scan_order c (length xs))")
      case inner: None
      with None none show ?thesis
        by (simp add: select_next_none)
    next
      case inner: (Some j)
      with None none show ?thesis
        by (simp add: select_next_fallback)
    qed
  qed
qed

text \<open>
  Claim C1. \<open>RoundRobinLoadBalancer::getNextServer\<close> visits the pool indices once
  around from the cursor (\<open>scan_order\<close>). It returns the first visited entry that is
  alive and healthy and stores the index after it, modulo the pool size, as the cursor.
  With no such entry it returns the first visited entry that is alive and stores the
  index after that entry's index in the pool (the first index holding that pointer,
  which is the visited index when no pointer occurs twice in the pool). It returns
  \<open>nullptr\<close> exactly when no pool entry is alive, and then the balancer is unchanged.
\<close>

theorem RoundRobin_getNextServer_scan:
  "RoundRobin_getNextServer h lb =
     (case find (\<lambda>j. isAlive (h (serversList lb ! j)) \<and> isHealthy (h (serversList lb ! j)))
             (scan_order (currentServerIndex lb) (length (serversList lb))) of
        Some j \<Rightarrow>
          (Some (serversList lb ! j),
           lb\<lparr>currentServerIndex := (j + 1) mod length (serversList lb)\<rparr>)
      | None \<Rightarrow>
          (case find (\<lambda>j. isAlive (h (serversList lb ! j)))
                  (scan_order (currentServerIndex lb) (length (serversList lb))) of
             Some j \<Rightarrow>
               (Some (serversList lb ! j),
                lb\<lparr>currentServerIndex :=
                     (first_index (serversList lb) (serversList lb ! j) + 1)
                       mod length (serversList lb)\<rparr>)
           | None \<Rightarrow> (None, lb))) \<and>
   (fst (RoundRobin_getNextServer h lb) = None \<longleftrightarrow>
      (\<forall>p \<in> set (serversList lb). \<not> isAlive (h p))) \<and>
   (distinct (serversList lb) \<and>
    find (\<lambda>j. isAlive (h (serversList lb ! j)) \<and> isHealthy (h (serversList lb ! j)))
      (scan_order (currentServerIndex lb) (length (serversList lb))) = None \<and>
    find (\<lambda>j. isAlive (h (serversList lb ! j)))
      (scan_order (currentServerIndex lb) (length (serversList lb))) = Some k \<longrightarrow>
      RoundRobin_getNextServer h lb =
        (Some (serversList lb ! k),
         lb\<lparr>currentServerIndex := (k + 1) mod length (serversList lb)\<rparr>))"
proof (intro conjI impI)
  show "RoundRobin_getNextServer h lb =
     (case find (\<lambda>j. isAlive (h (serversList lb ! j)) \<and> isHealthy (h (serversList lb ! j)))
             (scan_order (currentServerIndex lb) (length (serversList lb))) of
        Some j \<Rightarrow>
          (Some (serversList lb ! j),
           lb\<lparr>currentServerIndex := (j + 1) mod length (serversList lb)\<rparr>)
      | None \<Rightarrow>
          (case find (\<lambda>j. isAlive (h (serversList lb ! j)))
                  (scan_order (currentServerIndex lb) (length (serversList lb))) of
             Some j \<Rightarrow>
               (Some (serversList lb ! j),
                lb\<lparr>currentServerIndex :=
                     (first_index (serversList lb) (serversList lb ! j) + 1)
                       mod length (serversList lb)\<rparr>)
           | None \<Rightarrow> (None, lb)))"
  proof (cases "serversList lb = []")
    case True
    then show ?thesis
      by (simp add: RoundRobin_getNextServer_def scan_order_def)
  next
    case False
    show ?thesis
    proof (cases "find (\<lambda>j. isAlive (h (serversList lb ! j)) \<and> isHealthy (h (serversList lb ! j)))
             (scan_order (currentServerIndex lb) (length (serversList lb)))")
      case (Some j)
      with False show ?thesis
        by (simp add: RoundRobin_getNextServer_def select_next_healthy)
    next
      case None
      show ?thesis
      proof (cases "find (\<lambda>j. isAlive (h (serversList lb ! j)))
                  (scan_order (currentServerIndex lb) (length (serversList lb)))")
        case inner: None
        with None False show ?thesis
          by (simp add: RoundRobin_getNextServer_def select_next_none)
      next
        case inner: (Some j)
        with None False show ?thesis
          by (simp add: RoundRobin_getNextServer_def select_next_fallback)
      qed
    qed
  qed
next
  show "fst (RoundRobin_getNextServer h lb) = None \<longleftrightarrow>
      (\<forall>p \<in> set (serversList lb). \<not> isAlive (h p))"
  proof (cases "serversList lb = []")
    case True
    then show ?thesis
      by (simp add: RoundRobin_getNextServer_def)
  next
    case False
    have "fst (RoundRobin_getNextServer h lb) =
        fst (select_next h (serversList lb) (currentServerIndex lb))"
      using False by (simp add: RoundRobin_getNextServer_def split: prod.splits)
    then show ?thesis
      by (simp only: select_next_null_iff)
  qed
next
  assume a: "distinct (serversList lb) \<and>
    find (\<lambda>j. isAlive (h (serversList lb ! j)) \<and> isHealthy (h (serversList lb ! j)))
      (scan_order (currentServerIndex lb) (length (serversList lb))) = None \<and>
    find (\<lambda>j. isAlive (h (serversList lb ! j)))
      (scan_order (currentServerIndex lb) (length (serversList lb))) = Some k"
  then have "find (\<lambda>j. isAlive (h (serversList lb ! j)))
      (scan_order (currentServerIndex lb) (length (serversList lb))) = Some k"
    by simp
  then have "k \<in> set (scan_order (currentServerIndex lb) (length (serversList lb)))"
    by (rule find_Some_set [THEN conjunct1])
  then have k: "k < length (serversList lb)"
    by (rule scan_order_bound)
  with a have "first_index (serversList lb) (serversList lb ! k) = k"
    by (simp add: first_index_distinct)
  moreover from k have "serversList lb \<noteq> []"
    by auto
  ultimately show "RoundRobin_getNextServer h lb =
        (Some (serversList lb ! k),
         lb\<lparr>currentServerIndex := (k + 1) mod length (serversList lb)\<rparr>)"
    using a by (simp add: RoundRobin_getNextServer_def select_next_fallback)
qed

text \<open>A pool with a healthy entry last, a pool with only a fallback, and a pool with a dead entry only.\<close>

theorem RoundRobin_getNextServer_scan_witness:
  "distinct (serversList (example_balancer [2, 1, 0] 0)) \<and>
   RoundRobin_getNextServer example_store (example_balancer [2, 1, 0] 0) =
     (Some 0, example_balancer [2, 1, 0] 0) \<and>
   RoundRobin_getNextServer example_store (example_balancer [2, 1] 0) =
     (Some 1, example_balancer [2, 1] 0) \<and>
   serversList (example_balancer [2] 0) = [2] \<and> \<not> isAlive (example_store 2) \<and>
   fst (RoundRobin_getNextServer example_store (example_balancer [2] 0)) = None"
proof -
  let ?a = "example_balancer [2, 1, 0] 0" and ?b = "example_balancer [2, 1] 0"
    and ?c = "example_balancer [2] 0"
  have healthy: "find (\<lambda>j. isAlive (example_store (serversList ?a ! j)) \<and>
        isHealthy (example_store (serversList ?a ! j)))
      (scan_order (currentServerIndex ?a) (length (serversList ?a))) = Some 2"
    by code_simp
  have unhealthy: "find (\<lambda>j. isAlive (example_store (serversList ?b ! j)) \<and>
        isHealthy (example_store (serversList ?b ! j)))
      (scan_order (currentServerIndex ?b) (length (serversList ?b))) = None"
    and fallback: "find (\<lambda>j. isAlive (example_store (serversList ?b ! j)))
      (scan_order (currentServerIndex ?b) (length (serversList ?b))) = Some 1"
    by code_simp+
  have dist: "distinct (serversList ?b)" "distinct (serversList ?a)"
    by (simp_all add: example_defs)
  have dead: "\<forall>p \<in> set (serversList ?c). \<not> isAlive (example_store p)"
    by (simp add: example_defs)
  from healthy RoundRobin_getNextServer_scan [of example_store ?a 0]
  have 1: "RoundRobin_getNextServer example_store ?a =
      (Some (serversList ?a ! 2), ?a\<lparr>currentServerIndex := (2 + 1) mod length (serversList ?a)\<rparr>)"
    by simp
  from unhealthy fallback dist RoundRobin_getNextServer_scan [of example_store ?b 1]
  have 2: "RoundRobin_getNextServer example_store ?b =
      (Some (serversList ?b ! 1), ?b\<lparr>currentServerIndex := (1 + 1) mod length (serversList ?b)\<rparr>)"
    by blast
  from dead RoundRobin_getNextServer_scan [of example_store ?c 0]
  have 3: "fst (RoundRobin_getNextServer example_store ?c) = None"
    by blast
  from 1 have 1: "RoundRobin_getNextServer example_store ?a = (Some 0, ?a)"
    by (simp add: example_balancer_def)
  from 2 have 2: "RoundRobin_getNextServer example_store ?b = (Some 1, ?b)"
    by (simp add: example_balancer_def)
  have "serversList ?c = [2]" and "\<not> isAlive (example_store 2)"
    by (simp_all add: example_defs)
  with 1 2 3 dist show ?thesis
    by blast
qed

lemma select_next_all_healthy:
  assumes ne: "xs \<noteq> []" and ok: "\<forall>p \<in> set xs. isAlive (h p) \<and> isHealthy (h p)"
  shows "select_next h xs c = (Some (xs ! (c mod length xs)), (c mod length xs + 1) mod length xs)"
proof -
  from ne have "c mod length xs < length xs"
    by simp
  with ok have "isAlive (h (xs ! (c mod length xs))) \<and> isHealthy (h (xs ! (c mod length xs)))"
    by simp
  with ne have "scan_loop h xs c 0 None = Healthy (c mod length xs)"
    by (subst scan_loop.simps) simp
  then show ?thesis
    by (simp add: select_next_def)
qed

lemma getNextServer_all_healthy:
  assumes "serversList lb \<noteq> []"
    and "\<forall>p \<in> set (serversList lb). isAlive (h p) \<and> isHealthy (h p)"
  shows "RoundRobin_getNextServer h lb =
     (Some (serversList lb ! (currentServerIndex lb mod length (serversList lb))),
      lb\<lparr>currentServerIndex :=
           (currentServerIndex lb mod length (serversList lb) + 1) mod length (serversList lb)\<rparr>)"
  using assms by (simp add: RoundRobin_getNextServer_def select_next_all_healthy)

lemma calls_all_healthy:
  assumes "serversList lb \<noteq> []"
    and "\<forall>p \<in> set (serversList lb). isAlive (h p) \<and> isHealthy (h p)"
  shows "RoundRobin_calls k h lb =
     (map (\<lambda>i. Some (serversList lb ! ((currentServerIndex lb + i) mod length (serversList lb))))
        [0..<k],
      if k = 0 then lb
      else lb\<lparr>currentServerIndex := (currentServerIndex lb + k) mod length (serversList lb)\<rparr>)"
  using assms
proof (induction k arbitrary: lb)
  case 0
  then show ?case by simp
next
  case (Suc k)
  let ?n = "length (serversList lb)"
  let ?c = "currentServerIndex lb"
  let ?lb1 = "lb\<lparr>currentServerIndex := (?c mod ?n + 1) mod ?n\<rparr>"
  have first: "RoundRobin_getNextServer h lb = (Some (serversList lb ! (?c mod ?n)), ?lb1)"
    using Suc.prems by (rule getNextServer_all_healthy)
  have pool1: "serversList ?lb1 = serversList lb"
    by simp
  have rest: "RoundRobin_calls k h ?lb1 =
     (map (\<lambda>i. Some (serversList lb ! (((?c mod ?n + 1) mod ?n + i) mod ?n))) [0..<k],
      if k = 0 then ?lb1
      else ?lb1\<lparr>currentServerIndex := ((?c mod ?n + 1) mod ?n + k) mod ?n\<rparr>)"
    using Suc.IH [of ?lb1] Suc.prems by simp
  have shift: "((?c mod ?n + 1) mod ?n + i) mod ?n = (?c + Suc i) mod ?n" for i
    by (simp add: mod_simps)
  have upt: "[0..<Suc k] = 0 # map Suc [0..<k]"
    by (simp add: upt_conv_Cons map_Suc_upt del: upt_Suc)
  have "map (\<lambda>i. Some (serversList lb ! ((?c + i) mod ?n))) [0..<Suc k] =
      Some (serversList lb ! (?c mod ?n)) #
      map (\<lambda>i. Some (serversList lb ! ((?c + Suc i) mod ?n))) [0..<k]"
    by (simp only: upt list.map map_map o_def) simp
  moreover have "(if k = 0 then ?lb1
      else ?lb1\<lparr>currentServerIndex := ((?c mod ?n + 1) mod ?n + k) mod ?n\<rparr>) =
      lb\<lparr>currentServerIndex := (?c + Suc k) mod ?n\<rparr>"
    by (simp add: shift) (simp add: mod_simps)
  ultimately show ?case
    by (simp only: RoundRobin_calls.simps first rest shift prod.case) simp
qed

lemma rotate_scan:
  assumes "xs \<noteq> []"
  shows "map (\<lambda>i. xs ! ((c + i) mod length xs)) [0..<length xs] = rotate (c mod length xs) xs"
proof (rule nth_equalityI)
  show "length (map (\<lambda>i. xs ! ((c + i) mod length xs)) [0..<length xs]) =
      length (rotate (c mod length xs) xs)"
    by simp
next
  fix i assume "i < length (map (\<lambda>i. xs ! ((c + i) mod length xs)) [0..<length xs])"
  then have i: "i < length xs"
    by simp
  then have "rotate (c mod length xs) xs ! i = xs ! ((c mod length xs + i) mod length xs)"
    by (simp add: nth_rotate)
  also have "\<dots> = xs ! ((c + i) mod length xs)"
    by (simp add: mod_simps)
  finally show "map (\<lambda>i. xs ! ((c + i) mod length xs)) [0..<length xs] ! i =
      rotate (c mod length xs) xs ! i"
    using i by simp
qed

text \<open>
  Claim C4. For a non-empty pool whose entries are all alive and healthy, as many
  consecutive calls of \<open>getNextServer\<close> as the pool has entries return the pool rotated
  to start at the cursor's entry: every pool position once, in cyclic pool order. The
  call after that returns the first entry again. When the pool's addresses are distinct,
  so are the returned ones.
\<close>

theorem RoundRobin_full_cycle:
  "serversList lb \<noteq> [] \<and> (\<forall>p \<in> set (serversList lb). isAlive (h p) \<and> isHealthy (h p)) \<longrightarrow>
     fst (RoundRobin_calls (length (serversList lb)) h lb) =
       map Some (rotate (currentServerIndex lb mod length (serversList lb)) (serversList lb)) \<and>
     fst (RoundRobin_calls k h lb) =
       map (\<lambda>i. Some (serversList lb ! ((currentServerIndex lb + i) mod length (serversList lb))))
         [0..<k] \<and>
     fst (RoundRobin_getNextServer h (snd (RoundRobin_calls (length (serversList lb)) h lb))) =
       fst (RoundRobin_getNextServer h lb) \<and>
     (distinct (map (\<lambda>p. serverAddress (h p)) (serversList lb)) \<longrightarrow>
        distinct (map (\<lambda>p. serverAddress (h p))
          (rotate (currentServerIndex lb mod length (serversList lb)) (serversList lb))))"
proof (intro impI)
  assume a: "serversList lb \<noteq> [] \<and>
    (\<forall>p \<in> set (serversList lb). isAlive (h p) \<and> isHealthy (h p))"
  let ?n = "length (serversList lb)"
  let ?c = "currentServerIndex lb"
  from a have calls: "RoundRobin_calls k h lb =
     (map (\<lambda>i. Some (serversList lb ! ((?c + i) mod ?n))) [0..<k],
      if k = 0 then lb else lb\<lparr>currentServerIndex := (?c + k) mod ?n\<rparr>)" for k
    by (intro calls_all_healthy) simp_all
  have "map (\<lambda>i. Some (serversList lb ! ((?c + i) mod ?n))) [0..<?n] =
      map Some (map (\<lambda>i. serversList lb ! ((?c + i) mod ?n)) [0..<?n])"
    by simp
  also have "\<dots> = map Some (rotate (?c mod ?n) (serversList lb))"
    using a by (simp add: rotate_scan)
  finally have cycle: "fst (RoundRobin_calls ?n h lb) =
      map Some (rotate (?c mod ?n) (serversList lb))"
    by (simp add: calls)
  from a have n: "?n \<noteq> 0"
    by simp
  then have after: "snd (RoundRobin_calls ?n h lb) = lb\<lparr>currentServerIndex := ?c mod ?n\<rparr>"
    by (simp add: calls)
  have again: "fst (RoundRobin_getNextServer h (lb\<lparr>currentServerIndex := ?c mod ?n\<rparr>)) =
      fst (RoundRobin_getNextServer h lb)"
    using a by (simp add: getNextServer_all_healthy)
  have "distinct (map (\<lambda>p. serverAddress (h p)) (rotate (?c mod ?n) (serversList lb)))"
    if "distinct (map (\<lambda>p. serverAddress (h p)) (serversList lb))"
    using that by (simp add: rotate_map [symmetric])
  with cycle calls after again
  show "fst (RoundRobin_calls ?n h lb) = map Some (rotate (?c mod ?n) (serversList lb)) \<and>
     fst (RoundRobin_calls k h lb) =
       map (\<lambda>i. Some (serversList lb ! ((?c + i) mod ?n))) [0..<k] \<and>
     fst (RoundRobin_getNextServer h (snd (RoundRobin_calls ?n h lb))) =
       fst (RoundRobin_getNextServer h lb) \<and>
     (distinct (map (\<lambda>p. serverAddress (h p)) (serversList lb)) \<longrightarrow>
        distinct (map (\<lambda>p. serverAddress (h p)) (rotate (?c mod ?n) (serversList lb))))"
    by simp
qed

text \<open>Two calls on a pool of two healthy servers with the cursor at 1.\<close>

theorem RoundRobin_full_cycle_witness:
  "serversList (example_balancer [0, 3] 1) \<noteq> [] \<and>
   isAlive (example_store 0) \<and> isHealthy (example_store 0) \<and>
   isAlive (example_store 3) \<and> isHealthy (example_store 3) \<and>
   distinct (map (\<lambda>p. serverAddress (example_store p)) (serversList (example_balancer [0, 3] 1))) \<and>
   fst (RoundRobin_calls 2 example_store (example_balancer [0, 3] 1)) = [Some 3, Some 0]"
proof -
  let ?lb = "example_balancer [0, 3] 1"
  have ne: "serversList ?lb \<noteq> []"
    and ok: "\<forall>p \<in> set (serversList ?lb). isAlive (example_store p) \<and> isHealthy (example_store p)"
    and dist: "distinct (map (\<lambda>p. serverAddress (example_store p)) (serversList ?lb))"
    by (simp_all add: example_defs)
  have len: "length (serversList ?lb) = 2"
    by (simp add: example_balancer_def)
  from ne ok RoundRobin_full_cycle [of ?lb example_store 0]
  have "fst (RoundRobin_calls (length (serversList ?lb)) example_store ?lb) =
       map Some (rotate (currentServerIndex ?lb mod length (serversList ?lb)) (serversList ?lb))"
    by blast
  then have "fst (RoundRobin_calls 2 example_store ?lb) = [Some 3, Some 0]"
    unfolding len by (simp add: example_balancer_def)
  moreover have "isAlive (example_store 0) \<and> isHealthy (example_store 0) \<and>
      isAlive (example_store 3) \<and> isHealthy (example_store 3)"
    by (simp add: example_defs)
  ultimately show ?thesis
    using ne dist by blast
qed

end
